theory Spec2Isabelle
  imports Main "HOL-Library.Sublist"
begin

section \<open>Page analysis engine of \<open>src/src/playwrightAnalyzer.ts\<close>\<close>

text \<open>
  A shallow embedding of the class \<open>PlaywrightPageAnalyzer\<close>. JavaScript strings are
  modelled as \<open>string\<close>, a character standing for a UTF-16 code unit below 256, so
  the string helpers below are their JavaScript counterparts on such strings. A value of type
  \<open>string | null\<close> is a \<open>string option\<close>; an awaited driver call that may reject is a
  value of \<open>error + 'a\<close>, \<open>Inl\<close> being the thrown error.
\<close>

subsection \<open>Strings\<close>

definition squote :: char where
  "squote = CHR 0x27"

definition dquote :: char where
  "dquote = CHR 0x22"

definition backslash :: char where
  "backslash = CHR 0x5C"

text \<open>\<open>String.prototype.toLowerCase\<close>: the letters \<open>A\<close> to \<open>Z\<close> and the capital
  letters of the range \<open>0xC0\<close> to \<open>0xDE\<close> (all of it but the multiplication sign
  \<open>0xD7\<close>) are mapped to their small letters; other characters are kept.\<close>

definition upperLetters :: string where
  "upperLetters =
     ''ABCDEFGHIJKLMNOPQRSTUVWXYZ''
     @ [CHR 0xC0, CHR 0xC1, CHR 0xC2, CHR 0xC3, CHR 0xC4, CHR 0xC5, CHR 0xC6, CHR 0xC7,
        CHR 0xC8, CHR 0xC9, CHR 0xCA, CHR 0xCB, CHR 0xCC, CHR 0xCD, CHR 0xCE, CHR 0xCF,
        CHR 0xD0, CHR 0xD1, CHR 0xD2, CHR 0xD3, CHR 0xD4, CHR 0xD5, CHR 0xD6,
        CHR 0xD8, CHR 0xD9, CHR 0xDA, CHR 0xDB, CHR 0xDC, CHR 0xDD, CHR 0xDE]"

definition lowerLetters :: string where
  "lowerLetters =
     ''abcdefghijklmnopqrstuvwxyz''
     @ [CHR 0xE0, CHR 0xE1, CHR 0xE2, CHR 0xE3, CHR 0xE4, CHR 0xE5, CHR 0xE6, CHR 0xE7,
        CHR 0xE8, CHR 0xE9, CHR 0xEA, CHR 0xEB, CHR 0xEC, CHR 0xED, CHR 0xEE, CHR 0xEF,
        CHR 0xF0, CHR 0xF1, CHR 0xF2, CHR 0xF3, CHR 0xF4, CHR 0xF5, CHR 0xF6,
        CHR 0xF8, CHR 0xF9, CHR 0xFA, CHR 0xFB, CHR 0xFC, CHR 0xFD, CHR 0xFE]"

definition toLowerChar :: "char \<Rightarrow> char" where
  "toLowerChar c =
     (case map_of (zip upperLetters lowerLetters) c of
        None \<Rightarrow> c
      | Some d \<Rightarrow> d)"

definition toLowerCase :: "string \<Rightarrow> string" where
  "toLowerCase s = map toLowerChar s"

text \<open>\<open>String.prototype.trim\<close>: tab, line feed, vertical tab, form feed, carriage
  return, space and no-break space are stripped from both ends.\<close>

definition isSpace :: "char \<Rightarrow> bool" where
  "isSpace c =
     (c \<in> set [CHR 0x09, CHR 0x0A, CHR 0x0B, CHR 0x0C, CHR 0x0D, CHR 0x20, CHR 0xA0])"

definition trim :: "string \<Rightarrow> string" where
  "trim s = rev (dropWhile isSpace (rev (dropWhile isSpace s)))"

text \<open>\<open>s.includes(sub)\<close>: \<open>sub\<close> occurs in \<open>s\<close> as a contiguous piece.\<close>

fun includesStr :: "string \<Rightarrow> string \<Rightarrow> bool" where
  "includesStr [] sub = (sub = [])"
| "includesStr (c # cs) sub = (take (length sub) (c # cs) = sub \<or> includesStr cs sub)"

text \<open>\<open>s.replace(/q/g, "\\q")\<close> for a single character \<open>q\<close>: every occurrence of
  \<open>q\<close> gets a backslash in front of it.\<close>

definition escapeChar :: "char \<Rightarrow> string \<Rightarrow> string" where
  "escapeChar q s = concat (map (\<lambda>c. if c = q then [backslash, q] else [c]) s)"

text \<open>\<open>s.substring(0, n)\<close>.\<close>

definition substring0 :: "nat \<Rightarrow> string \<Rightarrow> string" where
  "substring0 n s = take n s"

text \<open>\<open>s.split(sep)[0]\<close> and \<open>s.split(sep).pop()\<close> for a one-character separator.\<close>

definition splitFirst :: "char \<Rightarrow> string \<Rightarrow> string" where
  "splitFirst sep s = takeWhile (\<lambda>c. c \<noteq> sep) s"

definition splitLast :: "char \<Rightarrow> string \<Rightarrow> string" where
  "splitLast sep s = rev (takeWhile (\<lambda>c. c \<noteq> sep) (rev s))"

text \<open>A number inside a template literal: its decimal digits.\<close>

fun numberToString :: "nat \<Rightarrow> string" where
  "numberToString n =
     (if n < 10 then [''0123456789'' ! n]
      else numberToString (n div 10) @ [''0123456789'' ! (n mod 10)])"

declare numberToString.simps [simp del]

text \<open>Truthiness of a \<open>string | null | undefined\<close> value, and \<open>v || d\<close>.\<close>

fun truthy :: "string option \<Rightarrow> bool" where
  "truthy None = False"
| "truthy (Some v) = (v \<noteq> [])"

fun orElse :: "string option \<Rightarrow> string \<Rightarrow> string" where
  "orElse None d = d"
| "orElse (Some v) d = (if v \<noteq> [] then v else d)"

text \<open>The string a value stands for where it is used as one: a missing property of an
  object reads \<open>undefined\<close>, a missing DOM attribute \<open>null\<close>.\<close>

fun strOf :: "string option \<Rightarrow> string" where
  "strOf None = ''undefined''"
| "strOf (Some v) = v"

fun strOfNull :: "string option \<Rightarrow> string" where
  "strOfNull None = ''null''"
| "strOfNull (Some v) = v"

subsection \<open>Data model\<close>

type_synonym attrs = "string \<rightharpoonup> string"

record PageElement =
  role :: string
  name_or_label :: string
  suggested_locator :: string
  text_content :: "string option"
  tag_name :: string
  attributes :: attrs

record PageAnalysis =
  url :: string
  title :: string
  high_level_actions :: "string list"
  key_elements :: "PageElement list"
  page_structure :: string
  form_fields :: "PageElement list"
  interactive_elements :: "PageElement list"
  navigation_elements :: "PageElement list"
  content_elements :: "PageElement list"

subsection \<open>The browser driver, as the analyzer sees it\<close>

datatype error = Thrown string

text \<open>
  An element handle: what each awaited call on it returns. \<open>h_tagName\<close> is
  \<open>handle.tagName()\<close>, \<open>h_elTagName\<close> the \<open>el.tagName\<close> read inside
  \<open>handle.evaluate\<close>, \<open>h_queryAll\<close> is \<open>handle.$$(selector)\<close> and \<open>h_query\<close> is
  \<open>handle.$(selector)\<close>.
\<close>

datatype handle = Handle
  (h_tagName: "error + string")
  (h_elTagName: "error + string")
  (h_getAttribute: "string \<Rightarrow> error + string option")
  (h_textContent: "error + string option")
  (h_queryAll: "string \<Rightarrow> error + handle list")
  (h_query: "string \<Rightarrow> error + handle option")

text \<open>Sequencing of awaited calls: the first rejection is the result.\<close>

fun bindE :: "error + 'a \<Rightarrow> ('a \<Rightarrow> error + 'b) \<Rightarrow> error + 'b" where
  "bindE (Inl e) f = Inl e"
| "bindE (Inr x) f = f x"

subsection \<open>Role classifier\<close>

text \<open>\<open>inferRole(handle, tagName, attributes)\<close>; the handle is not used.\<close>

definition inferRole :: "string \<Rightarrow> attrs \<Rightarrow> string" where
  "inferRole tagName atts =
     (if truthy (atts ''role'') then strOf (atts ''role'')
      else let tag = toLowerCase tagName in
        if tag = ''button'' then ''button''
        else if tag = ''a'' then ''link''
        else if tag = ''input'' then
          (if atts ''type'' = Some ''text'' \<or> atts ''type'' = Some ''email''
              \<or> atts ''type'' = Some ''password'' \<or> atts ''type'' = Some ''search''
             then ''textbox''
           else if atts ''type'' = Some ''checkbox'' then ''checkbox''
           else if atts ''type'' = Some ''radio'' then ''radio''
           else if atts ''type'' = Some ''submit'' then ''button''
           else ''textbox'')
        else if tag = ''select'' then ''combobox''
        else if tag = ''textarea'' then ''textbox''
        else ''generic'')"

subsection \<open>Name and label resolver\<close>

definition getElementName :: "attrs \<Rightarrow> string option \<Rightarrow> string" where
  "getElementName atts textContent =
     (if truthy (atts ''aria-label'') then strOf (atts ''aria-label'')
      else if truthy (atts ''data-testid'') then strOf (atts ''data-testid'')
      else if truthy (atts ''placeholder'') then strOf (atts ''placeholder'')
      else if truthy textContent \<and> trim (strOfNull textContent) \<noteq> []
        then trim (strOfNull textContent)
      else if truthy (atts ''name'') then strOf (atts ''name'')
      else if truthy (atts ''id'') then strOf (atts ''id'')
      else if truthy (atts ''href'') then strOf (atts ''href'')
      else ''unnamed element'')"

subsection \<open>Locator synthesizer\<close>

definition generateLocator :: "string \<Rightarrow> string \<Rightarrow> attrs \<Rightarrow> string \<Rightarrow> string" where
  "generateLocator rl nm atts tagName =
     (if truthy (atts ''data-testid'') then
        ''page.getByTestId('' @ [squote] @ strOf (atts ''data-testid'') @ [squote] @ '')''
      else if truthy (atts ''aria-label'') then
        ''page.getByLabel('' @ [squote] @ strOf (atts ''aria-label'') @ [squote] @ '')''
      else if rl = ''button'' \<and> nm \<noteq> [] \<and> nm \<noteq> ''unnamed element'' then
        ''page.getByRole('' @ [squote] @ ''button'' @ [squote] @ '', { name: '' @ [squote]
          @ nm @ [squote] @ '' })''
      else if rl = ''link'' \<and> nm \<noteq> [] \<and> nm \<noteq> ''unnamed element'' then
        ''page.getByRole('' @ [squote] @ ''link'' @ [squote] @ '', { name: '' @ [squote]
          @ nm @ [squote] @ '' })''
      else if rl = ''textbox'' \<and> truthy (atts ''placeholder'') then
        ''page.getByPlaceholder('' @ [squote] @ strOf (atts ''placeholder'') @ [squote] @ '')''
      else if rl = ''textbox'' \<and> truthy (atts ''aria-label'') then
        ''page.getByLabel('' @ [squote] @ strOf (atts ''aria-label'') @ [squote] @ '')''
      else if truthy (atts ''name'') then
        ''page.locator('' @ [squote] @ ''[name='' @ [dquote] @ strOf (atts ''name'')
          @ [dquote] @ '']'' @ [squote] @ '')''
      else if truthy (atts ''id'') then
        ''page.locator('' @ [squote] @ ''#'' @ strOf (atts ''id'') @ [squote] @ '')''
      else ''page.locator('' @ [squote] @ toLowerCase tagName @ [squote] @ '')'')"

text \<open>The content rule set. In the heading branch the source text has a stray semicolon
  inside the call of \<open>replace\<close>; the call is read as the one the paragraph and image
  branches make.\<close>

definition generateContentLocator ::
    "string \<Rightarrow> string \<Rightarrow> string \<Rightarrow> string option \<Rightarrow> string option \<Rightarrow> string" where
  "generateContentLocator rl txt tagName ident className =
     (if truthy ident then
        ''page.locator('' @ [squote] @ ''#'' @ strOfNull ident @ [squote] @ '')''
      else if rl = ''heading'' \<and> txt \<noteq> [] then
        ''page.getByRole('' @ [squote] @ ''heading'' @ [squote] @ '', { name: '' @ [squote]
          @ escapeChar squote txt @ [squote] @ '' })''
      else if txt \<noteq> [] \<and> (rl = ''paragraph'' \<or> rl = ''text'') then
        (let shortText = (if length txt > 20 then substring0 20 txt else txt) in
           ''page.getByText('' @ [squote] @ escapeChar squote shortText @ [squote] @ '')'')
      else if rl = ''image'' \<and> txt \<noteq> [] then
        ''page.getByAltText('' @ [squote] @ escapeChar squote txt @ [squote] @ '')''
      else if truthy className then
        ''page.locator('' @ [squote] @ tagName @ ''.''
          @ splitFirst (CHR '' '') (strOfNull className) @ [squote] @ '')''
      else if txt \<noteq> [] \<and> length txt < 50 then
        ''page.locator('' @ [squote] @ tagName @ '':has-text('' @ [dquote]
          @ escapeChar dquote txt @ [dquote] @ '')'' @ [squote] @ '')''
      else ''page.locator('' @ [squote] @ tagName @ [squote] @ '')'')"

subsection \<open>Element extractor\<close>

definition attrNames :: "string list" where
  "attrNames = [''id'', ''class'', ''name'', ''type'', ''placeholder'', ''aria-label'',
     ''data-testid'', ''href'', ''role'']"

text \<open>The loop over \<open>attrNames\<close>: an attribute is stored when its value is truthy.\<close>

fun collectAttributes :: "handle \<Rightarrow> string list \<Rightarrow> attrs \<Rightarrow> error + attrs" where
  "collectAttributes h [] atts = Inr atts"
| "collectAttributes h (a # as) atts =
     bindE (h_getAttribute h a) (\<lambda>value.
       collectAttributes h as
         (case value of
            None \<Rightarrow> atts
          | Some v \<Rightarrow> if v \<noteq> [] then atts(a \<mapsto> v) else atts))"

text \<open>\<open>extractElementInfo\<close>: \<open>None\<close> is the \<open>null\<close> returned from the \<open>catch\<close>.\<close>

definition extractElementInfo :: "handle \<Rightarrow> PageElement option" where
  "extractElementInfo h =
     (case
        bindE (h_tagName h) (\<lambda>tagName.
        bindE (collectAttributes h attrNames Map.empty) (\<lambda>atts.
        bindE (h_textContent h) (\<lambda>textContent.
          let rl = inferRole tagName atts;
              nameOrLabel = getElementName atts textContent;
              suggestedLocator = generateLocator rl nameOrLabel atts tagName
          in Inr \<lparr> role = rl,
                   name_or_label = nameOrLabel,
                   suggested_locator = suggestedLocator,
                   text_content = Some (orElse (map_option trim textContent) []),
                   tag_name = toLowerCase tagName,
                   attributes = atts \<rparr>)))
      of Inl e \<Rightarrow> None | Inr el \<Rightarrow> Some el)"

definition locators :: "string list" where
  "locators = [''input'', ''button'', ''select'', ''textarea'', ''a[href]'',
     ''[role='' @ [dquote] @ ''button'' @ [dquote] @ '']'',
     ''[role='' @ [dquote] @ ''textbox'' @ [dquote] @ '']'',
     ''[role='' @ [dquote] @ ''combobox'' @ [dquote] @ '']'',
     ''[role='' @ [dquote] @ ''checkbox'' @ [dquote] @ '']'',
     ''[role='' @ [dquote] @ ''radio'' @ [dquote] @ '']'',
     ''[data-testid]'', ''[aria-label]'']"

text \<open>\<open>Array.prototype.findIndex\<close> (\<open>-1\<close> when nothing matches) and
  \<open>Array.prototype.filter\<close> with the index and the array as further arguments.\<close>

fun findIndex :: "('a \<Rightarrow> bool) \<Rightarrow> 'a list \<Rightarrow> int" where
  "findIndex P [] = - 1"
| "findIndex P (x # xs) =
     (if P x then 0 else (let i = findIndex P xs in if i < 0 then - 1 else i + 1))"

definition filterIndexed :: "('a \<Rightarrow> nat \<Rightarrow> 'a list \<Rightarrow> bool) \<Rightarrow> 'a list \<Rightarrow> 'a list" where
  "filterIndexed f xs = map fst (filter (\<lambda>(x, i). f x i xs) (zip xs [0 ..< length xs]))"

definition uniqueElements :: "PageElement list \<Rightarrow> PageElement list" where
  "uniqueElements elements =
     filterIndexed
       (\<lambda>element index self.
          int index = findIndex (\<lambda>e. suggested_locator e = suggested_locator element) self)
       elements"

text \<open>The two nested loops of \<open>extractElements\<close>: \<open>q\<close> is \<open>page.$$\<close>, whose rejection
  is not caught here.\<close>

fun collectCandidates ::
    "(string \<Rightarrow> error + handle list) \<Rightarrow> string list \<Rightarrow> PageElement list \<Rightarrow> error + PageElement list"
where
  "collectCandidates q [] elements = Inr elements"
| "collectCandidates q (selector # rest) elements =
     bindE (q selector) (\<lambda>elementHandles.
       collectCandidates q rest (elements @ List.map_filter extractElementInfo elementHandles))"

definition extractElements :: "(string \<Rightarrow> error + handle list) \<Rightarrow> error + PageElement list" where
  "extractElements q = bindE (collectCandidates q locators []) (\<lambda>elements. Inr (uniqueElements elements))"

subsection \<open>Content extractor\<close>

text \<open>One node of a pass: the body of its \<open>try\<close>. \<open>Inl\<close> is a rejection (the node is
  skipped by the \<open>catch\<close>), \<open>Inr None\<close> a node the pass does not keep.\<close>

definition headingElement :: "handle \<Rightarrow> error + PageElement option" where
  "headingElement heading =
     bindE (h_elTagName heading) (\<lambda>t. let tagName = toLowerCase t in
     bindE (h_textContent heading) (\<lambda>tc. let textContent = map_option trim tc in
     bindE (h_getAttribute heading ''id'') (\<lambda>ident.
     bindE (h_getAttribute heading ''class'') (\<lambda>className.
       Inr (if truthy textContent then
              Some \<lparr> role = ''heading'',
                     name_or_label = strOf textContent,
                     suggested_locator =
                       generateContentLocator ''heading'' (strOf textContent) tagName ident className,
                     text_content = textContent,
                     tag_name = tagName,
                     attributes = [''id'' \<mapsto> orElse ident [], ''class'' \<mapsto> orElse className []] \<rparr>
            else None)))))"

definition paragraphElement :: "handle \<Rightarrow> error + PageElement option" where
  "paragraphElement paragraph =
     bindE (h_textContent paragraph) (\<lambda>tc. let textContent = map_option trim tc in
     bindE (h_getAttribute paragraph ''id'') (\<lambda>ident.
     bindE (h_getAttribute paragraph ''class'') (\<lambda>className.
       Inr (if truthy textContent \<and> length (strOf textContent) > 10 then
              (let preview =
                     (if length (strOf textContent) > 50
                      then substring0 50 (strOf textContent) @ ''...''
                      else strOf textContent)
               in Some \<lparr> role = ''paragraph'',
                         name_or_label = preview,
                         suggested_locator =
                           generateContentLocator ''paragraph'' (strOf textContent) ''p'' ident className,
                         text_content = textContent,
                         tag_name = ''p'',
                         attributes = [''id'' \<mapsto> orElse ident [], ''class'' \<mapsto> orElse className []] \<rparr>)
            else None))))"

definition listElement :: "handle \<Rightarrow> error + PageElement option" where
  "listElement lst =
     bindE (h_elTagName lst) (\<lambda>t. let tagName = toLowerCase t in
     bindE (h_queryAll lst ''li'') (\<lambda>items.
     bindE (h_getAttribute lst ''id'') (\<lambda>ident.
     bindE (h_getAttribute lst ''class'') (\<lambda>className.
       (case items of
          [] \<Rightarrow> Inr None
        | item0 # _ \<Rightarrow>
            bindE (h_textContent item0) (\<lambda>tc.
              let firstItemText = orElse (map_option trim tc) [];
                  listType = (if tagName = ''ul'' then ''unordered'' else ''ordered'')
              in Inr (Some
                   \<lparr> role = ''list'',
                     name_or_label =
                       listType @ '' list with '' @ numberToString (length items) @ '' items'',
                     suggested_locator =
                       generateContentLocator ''list'' firstItemText tagName ident className,
                     text_content =
                       Some (''List with '' @ numberToString (length items)
                             @ '' items. First item: '' @ firstItemText),
                     tag_name = tagName,
                     attributes = [''id'' \<mapsto> orElse ident [], ''class'' \<mapsto> orElse className [],
                                   ''type'' \<mapsto> listType] \<rparr>)))))))"

definition tableElement :: "handle \<Rightarrow> error + PageElement option" where
  "tableElement tbl =
     bindE (h_query tbl ''caption'') (\<lambda>captionElement.
     bindE (case captionElement of None \<Rightarrow> Inr None | Some c \<Rightarrow> h_textContent c) (\<lambda>caption.
     bindE (h_queryAll tbl ''tr'') (\<lambda>rows.
     bindE (h_getAttribute tbl ''id'') (\<lambda>ident.
     bindE (h_getAttribute tbl ''class'') (\<lambda>className.
       Inr (Some
         \<lparr> role = ''table'',
           name_or_label =
             orElse caption (''Table with '' @ numberToString (length rows) @ '' rows''),
           suggested_locator =
             generateContentLocator ''table'' (orElse caption []) ''table'' ident className,
           text_content = Some (''Table with '' @ numberToString (length rows) @ '' rows''),
           tag_name = ''table'',
           attributes = [''id'' \<mapsto> orElse ident [], ''class'' \<mapsto> orElse className []] \<rparr>))))))"

definition imageElement :: "handle \<Rightarrow> error + PageElement option" where
  "imageElement img =
     bindE (h_getAttribute img ''alt'') (\<lambda>alt.
     bindE (h_getAttribute img ''src'') (\<lambda>src.
     bindE (h_getAttribute img ''id'') (\<lambda>ident.
     bindE (h_getAttribute img ''class'') (\<lambda>className.
       Inr (if truthy alt \<or> truthy src then
              Some \<lparr> role = ''image'',
                     name_or_label =
                       orElse alt (''Image: '' @ strOf (map_option (splitLast (CHR ''/'')) src)),
                     suggested_locator =
                       generateContentLocator ''image'' (orElse alt []) ''img'' ident className,
                     text_content = Some (orElse alt []),
                     tag_name = ''img'',
                     attributes = [''id'' \<mapsto> orElse ident [], ''class'' \<mapsto> orElse className [],
                                   ''src'' \<mapsto> orElse src [], ''alt'' \<mapsto> orElse alt []] \<rparr>
            else None)))))"

text \<open>A pass over the handles of one query: a node whose body rejects, or which the
  body does not keep, contributes nothing.\<close>

fun runPass :: "(handle \<Rightarrow> error + PageElement option) \<Rightarrow> handle list \<Rightarrow> PageElement list" where
  "runPass body [] = []"
| "runPass body (h # hs) =
     (case body h of
        Inr (Some el) \<Rightarrow> el # runPass body hs
      | _ \<Rightarrow> runPass body hs)"

definition extractContentElements ::
    "(string \<Rightarrow> error + handle list) \<Rightarrow> error + PageElement list" where
  "extractContentElements q =
     bindE (q ''h1, h2, h3, h4, h5, h6'') (\<lambda>headings.
     bindE (q ''p'') (\<lambda>paragraphs.
     bindE (q ''ul, ol'') (\<lambda>lists.
     bindE (q ''table'') (\<lambda>tables.
     bindE (q ''img'') (\<lambda>images.
       Inr (runPass headingElement headings @ runPass paragraphElement paragraphs
            @ runPass listElement lists @ runPass tableElement tables
            @ runPass imageElement images))))))"

subsection \<open>Action inferencer\<close>

definition isSubmitButton :: "PageElement \<Rightarrow> bool" where
  "isSubmitButton el =
     (includesStr (toLowerCase (name_or_label el)) ''submit''
      \<or> includesStr (toLowerCase (name_or_label el)) ''sign in''
      \<or> includesStr (toLowerCase (name_or_label el)) ''login''
      \<or> includesStr (toLowerCase (name_or_label el)) ''save'')"

definition inferActions ::
    "PageElement list \<Rightarrow> PageElement list \<Rightarrow> PageElement list \<Rightarrow> string list" where
  "inferActions formFields interactiveElements contentElements =
     (let actions0 = (if length formFields > 0 then [''fill form fields''] else []);
          submitButtons = filter isSubmitButton interactiveElements;
          actions1 = actions0 @ (if length submitButtons > 0 then [''submit form''] else []);
          links = filter (\<lambda>el. role el = ''link'') interactiveElements;
          actions2 = actions1 @ (if length links > 0 then [''navigate via links''] else []);
          buttons = filter (\<lambda>el. role el = ''button''
                       \<and> \<not> list_ex (\<lambda>sb. suggested_locator sb = suggested_locator el) submitButtons)
                     interactiveElements;
          actions3 = actions2 @ (if length buttons > 0 then [''interact with buttons''] else []);
          headings = filter (\<lambda>el. role el = ''heading'') contentElements;
          actions4 = actions3 @ (if length headings > 0 then [''verify page headings''] else []);
          paragraphs = filter (\<lambda>el. role el = ''paragraph'') contentElements;
          actions5 = actions4 @ (if length paragraphs > 0 then [''verify text content''] else []);
          lists = filter (\<lambda>el. role el = ''list'') contentElements;
          actions6 = actions5 @ (if length lists > 0 then [''verify list content''] else []);
          tables = filter (\<lambda>el. role el = ''table'') contentElements;
          actions7 = actions6 @ (if length tables > 0 then [''verify table data''] else []);
          images = filter (\<lambda>el. role el = ''image'') contentElements;
          actions8 = actions7 @ (if length images > 0 then [''verify images''] else [])
      in actions8)"

subsection \<open>Page analysis and the browser session\<close>

text \<open>
  A page session, as \<open>analyzePage\<close> uses it: \<open>p_goto\<close> is \<open>page.goto\<close>, \<open>p_title\<close> is
  \<open>page.title()\<close>, \<open>p_queryAll\<close> is \<open>page.$$\<close>, \<open>p_structure\<close> is the
  \<open>page.evaluate\<close> call of \<open>getPageStructure\<close>, which runs inside the browser, and
  \<open>p_close\<close> is \<open>page.close()\<close>.
\<close>

record page =
  p_goto :: "string \<Rightarrow> error + unit"
  p_title :: "error + string"
  p_queryAll :: "string \<Rightarrow> error + handle list"
  p_structure :: "error + string"
  p_close :: "error + unit"

text \<open>The driver: \<open>d_launch\<close> is \<open>chromium.launch\<close>, giving the identity of the new
  browser process, and \<open>d_newPage\<close> is \<open>browser.newPage()\<close>, giving the identity of
  the new page session and the page.\<close>

record driver =
  d_launch :: "error + nat"
  d_newPage :: "nat \<Rightarrow> error + nat \<times> page"

text \<open>The analyzer's field \<open>browser\<close>, with the browser processes that are running and
  the page sessions that are open or have been closed.\<close>

record session =
  browser :: "nat option"
  running :: "nat list"
  open_pages :: "nat list"
  closed_pages :: "nat list"

definition initialize :: "driver \<Rightarrow> session \<Rightarrow> (error + unit) \<times> session" where
  "initialize d st =
     (case browser st of
        None \<Rightarrow>
          (case d_launch d of
             Inl e \<Rightarrow> (Inl e, st)
           | Inr b \<Rightarrow> (Inr (), st\<lparr> browser := Some b, running := b # running st \<rparr>))
      | Some b \<Rightarrow> (Inr (), st))"

text \<open>The body of the \<open>try\<close> block of \<open>analyzePage\<close>.\<close>

definition analyzeBody :: "page \<Rightarrow> string \<Rightarrow> error + PageAnalysis" where
  "analyzeBody pg u =
     bindE (p_goto pg u) (\<lambda>_.
     bindE (p_title pg) (\<lambda>ttl.
     bindE (extractElements (p_queryAll pg)) (\<lambda>elements.
     bindE (extractContentElements (p_queryAll pg)) (\<lambda>contentElements.
       let formFields =
             filter (\<lambda>el. role el \<in> set [''textbox'', ''input'', ''textarea'', ''combobox'', ''listbox'']
                          \<or> toLowerCase (tag_name el) \<in> set [''input'', ''textarea'', ''select''])
               elements;
           interactiveElements =
             filter (\<lambda>el. role el \<in> set [''button'', ''link'', ''checkbox'', ''radio'', ''switch'']
                          \<or> toLowerCase (tag_name el) \<in> set [''button'', ''a''])
               elements;
           navigationElements =
             filter (\<lambda>el. role el = ''link''
                          \<or> (toLowerCase (tag_name el) = ''a'' \<and> truthy (attributes el ''href''))
                          \<or> role el = ''navigation'')
               elements
       in
     bindE (p_structure pg) (\<lambda>pageStructure.
       let highLevelActions = inferActions formFields interactiveElements contentElements
       in Inr \<lparr> url = u,
                title = ttl,
                high_level_actions = highLevelActions,
                key_elements = elements,
                page_structure = pageStructure,
                form_fields = formFields,
                interactive_elements = interactiveElements,
                navigation_elements = navigationElements,
                content_elements = contentElements \<rparr>)))))"

text \<open>\<open>page.close()\<close>, awaited in the \<open>finally\<close> block: when the call rejects, the
  page session stays as it was.\<close>

definition closePage :: "page \<Rightarrow> nat \<Rightarrow> session \<Rightarrow> (error + unit) \<times> session" where
  "closePage pg pid st =
     (case p_close pg of
        Inl e \<Rightarrow> (Inl e, st)
      | Inr _ \<Rightarrow>
          (Inr (), st\<lparr> open_pages := removeAll pid (open_pages st),
                       closed_pages := pid # closed_pages st \<rparr>))"

text \<open>\<open>analyzePage\<close>: the \<open>finally\<close> block runs after the body whether the body
  returned or threw, and a rejection inside it takes the place of the body's result.\<close>

definition analyzePage :: "driver \<Rightarrow> string \<Rightarrow> session \<Rightarrow> (error + PageAnalysis) \<times> session" where
  "analyzePage d u st =
     (case initialize d st of
        (Inl e, st1) \<Rightarrow> (Inl e, st1)
      | (Inr _, st1) \<Rightarrow>
          (case browser st1 of
             None \<Rightarrow> (Inl (Thrown ''TypeError''), st1)
           | Some b \<Rightarrow>
               (case d_newPage d b of
                  Inl e \<Rightarrow> (Inl e, st1)
                | Inr (pid, pg) \<Rightarrow>
                    (let st2 = st1\<lparr> open_pages := pid # open_pages st1 \<rparr>;
                         result = analyzeBody pg u
                     in (case closePage pg pid st2 of
                           (Inl e, st3) \<Rightarrow> (Inl e, st3)
                         | (Inr _, st3) \<Rightarrow> (result, st3))))))"

text \<open>\<open>close()\<close>: the only place where the browser process is closed.\<close>

definition close :: "session \<Rightarrow> session" where
  "close st =
     (case browser st of
        None \<Rightarrow> st
      | Some b \<Rightarrow> st\<lparr> browser := None, running := removeAll b (running st) \<rparr>)"

section \<open>The specification's tables, and sample nodes\<close>

text \<open>An attribute counts as present when its value is truthy.\<close>

definition nonEmpty :: "string option \<Rightarrow> string option" where
  "nonEmpty v = (if truthy v then v else None)"

text \<open>The documented role table: an explicit role wins, then the tag decides, and
  \<open>input\<close> is classified by its type.\<close>

definition inputRole :: "string option \<Rightarrow> string" where
  "inputRole ty =
     (if ty = Some ''text'' \<or> ty = Some ''email'' \<or> ty = Some ''password'' \<or> ty = Some ''search''
        then ''textbox''
      else if ty = Some ''checkbox'' then ''checkbox''
      else if ty = Some ''radio'' then ''radio''
      else if ty = Some ''submit'' then ''button''
      else ''textbox'')"

definition roleTable :: "string option \<Rightarrow> string \<Rightarrow> string option \<Rightarrow> string" where
  "roleTable explicitRole tag ty =
     (case explicitRole of
        Some r \<Rightarrow> r
      | None \<Rightarrow>
          if tag = ''button'' then ''button''
          else if tag = ''a'' then ''link''
          else if tag = ''select'' then ''combobox''
          else if tag = ''textarea'' then ''textbox''
          else if tag = ''input'' then inputRole ty
          else ''generic'')"

text \<open>The documented naming chain: the first non-empty entry wins, an absent entry
  counting as empty.\<close>

definition firstNonEmpty :: "string list \<Rightarrow> string \<Rightarrow> string" where
  "firstNonEmpty chain fallback =
     (case filter (\<lambda>s. s \<noteq> []) chain of [] \<Rightarrow> fallback | s # _ \<Rightarrow> s)"

definition nameChain :: "attrs \<Rightarrow> string option \<Rightarrow> string list" where
  "nameChain atts textContent =
     [orElse (atts ''aria-label'') [], orElse (atts ''data-testid'') [],
      orElse (atts ''placeholder'') [], trim (orElse textContent []),
      orElse (atts ''name'') [], orElse (atts ''id'') [], orElse (atts ''href'') []]"

text \<open>The documented locator priority for interactive elements: which kind of locator
  is chosen, apart from how it is written out.\<close>

datatype locatorChoice =
    ByTestId string
  | ByLabel string
  | ByRoleName string string
  | ByPlaceholder string
  | ByNameAttribute string
  | ById string
  | ByTag string

fun render :: "locatorChoice \<Rightarrow> string" where
  "render (ByTestId v) = ''page.getByTestId('' @ [squote] @ v @ [squote] @ '')''"
| "render (ByLabel v) = ''page.getByLabel('' @ [squote] @ v @ [squote] @ '')''"
| "render (ByRoleName r n) =
     ''page.getByRole('' @ [squote] @ r @ [squote] @ '', { name: '' @ [squote] @ n @ [squote] @ '' })''"
| "render (ByPlaceholder v) = ''page.getByPlaceholder('' @ [squote] @ v @ [squote] @ '')''"
| "render (ByNameAttribute v) =
     ''page.locator('' @ [squote] @ ''[name='' @ [dquote] @ v @ [dquote] @ '']'' @ [squote] @ '')''"
| "render (ById v) = ''page.locator('' @ [squote] @ ''#'' @ v @ [squote] @ '')''"
| "render (ByTag t) = ''page.locator('' @ [squote] @ t @ [squote] @ '')''"

definition chooseLocator :: "string \<Rightarrow> string \<Rightarrow> attrs \<Rightarrow> string \<Rightarrow> locatorChoice" where
  "chooseLocator rl nm atts tag =
     (if atts ''data-testid'' \<noteq> None then ByTestId (strOf (atts ''data-testid''))
      else if atts ''aria-label'' \<noteq> None then ByLabel (strOf (atts ''aria-label''))
      else if (rl = ''button'' \<or> rl = ''link'') \<and> nm \<noteq> ''unnamed element'' then ByRoleName rl nm
      else if rl = ''textbox'' \<and> atts ''placeholder'' \<noteq> None
        then ByPlaceholder (strOf (atts ''placeholder''))
      else if rl = ''textbox'' \<and> atts ''aria-label'' \<noteq> None
        then ByLabel (strOf (atts ''aria-label''))
      else if atts ''name'' \<noteq> None then ByNameAttribute (strOf (atts ''name''))
      else if atts ''id'' \<noteq> None then ById (strOf (atts ''id''))
      else ByTag tag)"

text \<open>A node without descendants of interest, none of whose calls rejects: its tag
  name, its attributes and its text.\<close>

definition plainHandle :: "string \<Rightarrow> (string \<times> string) list \<Rightarrow> string \<Rightarrow> handle" where
  "plainHandle tag atts txt =
     Handle (Inr tag) (Inr tag) (\<lambda>k. Inr (map_of atts k)) (Inr (Some txt))
       (\<lambda>sel. Inr []) (\<lambda>sel. Inr None)"

definition emailInput :: handle where
  "emailInput =
     plainHandle ''INPUT''
       [(''type'', ''email''), (''data-testid'', ''email''), (''aria-label'', ''Email address'')] []"

definition checkboxInput :: handle where
  "checkboxInput =
     plainHandle ''INPUT'' [(''type'', ''checkbox''), (''role'', []), (''id'', ''agree'')] []"

text \<open>The documented triggers of the action labels, in their evaluation order.\<close>

definition actionTriggers ::
    "PageElement list \<Rightarrow> PageElement list \<Rightarrow> PageElement list \<Rightarrow> (bool \<times> string) list" where
  "actionTriggers formFields interactiveElements contentElements =
     [(formFields \<noteq> [], ''fill form fields''),
      (\<exists>el \<in> set interactiveElements. isSubmitButton el, ''submit form''),
      (\<exists>el \<in> set interactiveElements. role el = ''link'', ''navigate via links''),
      (\<exists>el \<in> set interactiveElements. role el = ''button''
          \<and> \<not> (\<exists>sb \<in> set interactiveElements.
                  isSubmitButton sb \<and> suggested_locator sb = suggested_locator el),
       ''interact with buttons''),
      (\<exists>el \<in> set contentElements. role el = ''heading'', ''verify page headings''),
      (\<exists>el \<in> set contentElements. role el = ''paragraph'', ''verify text content''),
      (\<exists>el \<in> set contentElements. role el = ''list'', ''verify list content''),
      (\<exists>el \<in> set contentElements. role el = ''table'', ''verify table data''),
      (\<exists>el \<in> set contentElements. role el = ''image'', ''verify images'')]"

text \<open>An element record with a given role, name and locator.\<close>

definition sampleElement :: "string \<Rightarrow> string \<Rightarrow> string \<Rightarrow> PageElement" where
  "sampleElement rl nm loc =
     \<lparr> role = rl, name_or_label = nm, suggested_locator = loc, text_content = Some nm,
       tag_name = rl, attributes = Map.empty \<rparr>"

text \<open>Deduplication as the specification words it: going through the candidates in
  order, one is kept when its locator has not been seen before.\<close>

fun firstWins :: "string list \<Rightarrow> PageElement list \<Rightarrow> PageElement list" where
  "firstWins seen [] = []"
| "firstWins seen (x # xs) =
     (if suggested_locator x \<in> set seen then firstWins seen xs
      else x # firstWins (suggested_locator x # seen) xs)"

text \<open>The candidates one selector of the catalogue contributes, in the order in which
  the query returns its handles.\<close>

definition candidatesOf :: "(string \<Rightarrow> error + handle list) \<Rightarrow> string \<Rightarrow> PageElement list" where
  "candidatesOf q selector =
     (case q selector of Inl e \<Rightarrow> [] | Inr elementHandles \<Rightarrow> List.map_filter extractElementInfo elementHandles)"

text \<open>A page with an input and a button that carry the same test id.\<close>

definition testidInput :: handle where
  "testidInput = plainHandle ''INPUT'' [(''data-testid'', ''go'')] []"

definition testidButton :: handle where
  "testidButton = plainHandle ''BUTTON'' [(''data-testid'', ''go'')] ''Go''"

definition testidPage :: "string \<Rightarrow> error + handle list" where
  "testidPage selector =
     (if selector = ''input'' then Inr [testidInput]
      else if selector = ''button'' then Inr [testidButton]
      else if selector = ''[data-testid]'' then Inr [testidInput, testidButton]
      else Inr [])"

text \<open>The five passes of the content extractor.\<close>

definition contentBodies :: "(handle \<Rightarrow> error + PageElement option) set" where
  "contentBodies = {headingElement, paragraphElement, listElement, tableElement, imageElement}"

text \<open>A page whose only node of interest is a paragraph that is an editable text box:
  it has an id and the explicit role \<open>textbox\<close>.\<close>

definition editorParagraph :: handle where
  "editorParagraph =
     plainHandle ''P'' [(''id'', ''editor''), (''role'', ''textbox'')] ''Type your message here''"

definition editorQuery :: "string \<Rightarrow> error + handle list" where
  "editorQuery selector =
     (if selector = ''p'' \<or> selector = ''[role='' @ [dquote] @ ''textbox'' @ [dquote] @ '']''
      then Inr [editorParagraph] else Inr [])"

definition editorPage :: page where
  "editorPage =
     \<lparr> p_goto = (\<lambda>u. Inr ()), p_title = Inr ''Editor'', p_queryAll = editorQuery,
       p_structure = Inr ''body'', p_close = Inr () \<rparr>"

text \<open>An image with a source, an empty class and neither id nor alternative text.\<close>

definition logoImage :: handle where
  "logoImage = plainHandle ''IMG'' [(''src'', ''/img/logo.png''), (''class'', [])] []"

text \<open>A list node: its \<open>li\<close> query returns one node per given item text.\<close>

definition listHandle :: "string \<Rightarrow> (string \<times> string) list \<Rightarrow> string list \<Rightarrow> handle" where
  "listHandle tag atts itemTexts =
     Handle (Inr tag) (Inr tag) (\<lambda>k. Inr (map_of atts k)) (Inr (Some (concat itemTexts)))
       (\<lambda>sel. if sel = ''li'' then Inr (map (plainHandle ''LI'' []) itemTexts) else Inr [])
       (\<lambda>sel. Inr None)"

text \<open>Two unordered lists of three items without id and class; the first item of the
  second one has 57 characters.\<close>

definition fruitList :: handle where
  "fruitList = listHandle ''UL'' [] ['' Apples '', ''Pears'', ''Plums'']"

definition termsList :: handle where
  "termsList =
     listHandle ''UL'' []
       [''You agree to the terms of service and the privacy policy.'', ''Yes'', ''No'']"

text \<open>Every occurrence of the quote character \<open>q\<close> in a text stands right after a
  backslash that escapes it.\<close>

fun quotesEscaped :: "char \<Rightarrow> string \<Rightarrow> bool" where
  "quotesEscaped q [] = True"
| "quotesEscaped q [c] = (c \<noteq> q)"
| "quotesEscaped q (c # d # cs) =
     (c \<noteq> q \<and> (if c = backslash \<and> d = q then quotesEscaped q cs else quotesEscaped q (d # cs)))"

text \<open>A button whose text holds a single quote.\<close>

definition quoteButton :: handle where
  "quoteButton = plainHandle ''BUTTON'' [] ''Don't save''"

text \<open>A page with two headings and, as its only interactive element, a checkbox built
  from a \<open>div\<close> and labelled \<open>Save settings\<close>.\<close>

definition saveCheckbox :: handle where
  "saveCheckbox =
     plainHandle ''DIV'' [(''role'', ''checkbox''), (''aria-label'', ''Save settings'')] []"

definition settingsQuery :: "string \<Rightarrow> error + handle list" where
  "settingsQuery selector =
     (if selector = ''[role='' @ [dquote] @ ''checkbox'' @ [dquote] @ '']''
         \<or> selector = ''[aria-label]''
        then Inr [saveCheckbox]
      else if selector = ''h1, h2, h3, h4, h5, h6''
        then Inr [plainHandle ''H1'' [] ''Settings'', plainHandle ''H2'' [] ''Account'']
      else Inr [])"

definition settingsPage :: page where
  "settingsPage =
     \<lparr> p_goto = (\<lambda>u. Inr ()), p_title = Inr ''Settings'', p_queryAll = settingsQuery,
       p_structure = Inr ''body'', p_close = Inr () \<rparr>"

text \<open>A page whose navigation fails, a page that cannot be closed, a driver that launches
  browser 3 and opens page session 7 on the given page, and the state of a new
  analyzer.\<close>

definition unreachablePage :: page where
  "unreachablePage =
     \<lparr> p_goto = (\<lambda>u. Inl (Thrown ''net::ERR_NAME_NOT_RESOLVED'')), p_title = Inr [],
       p_queryAll = (\<lambda>sel. Inr []), p_structure = Inr [], p_close = Inr () \<rparr>"

definition stuckPage :: page where
  "stuckPage =
     \<lparr> p_goto = (\<lambda>u. Inr ()), p_title = Inr [],
       p_queryAll = (\<lambda>sel. Inr []), p_structure = Inr [],
       p_close = Inl (Thrown ''Target closed'') \<rparr>"

definition sampleDriver :: "page \<Rightarrow> driver" where
  "sampleDriver pg = \<lparr> d_launch = Inr 3, d_newPage = (\<lambda>b. Inr (7, pg)) \<rparr>"

definition freshSession :: session where
  "freshSession = \<lparr> browser = None, running = [], open_pages = [], closed_pages = [] \<rparr>"

section \<open>Verified properties\<close>

subsection \<open>Auxiliary facts\<close>

lemma truthy_orElse: "truthy v \<longleftrightarrow> orElse v [] \<noteq> []"
  by (cases v) simp_all

lemma strOf_orElse: "truthy v \<Longrightarrow> strOf v = orElse v []"
  by (cases v) simp_all

lemma strOfNull_orElse: "truthy v \<Longrightarrow> strOfNull v = orElse v []"
  by (cases v) simp_all

lemma firstNonEmpty_Cons:
  "firstNonEmpty (x # xs) d = (if x \<noteq> [] then x else firstNonEmpty xs d)"
  by (simp add: firstNonEmpty_def)

lemma firstNonEmpty_Nil: "firstNonEmpty [] d = d"
  by (simp add: firstNonEmpty_def)

text \<open>What the attribute loop stores: exactly the truthy values of the names it visits.\<close>

lemma collectAttributes_lookup:
  "collectAttributes h ks atts = Inr atts' \<Longrightarrow>
     atts' k = (case h_getAttribute h k of
                  Inr (Some v) \<Rightarrow> if k \<in> set ks \<and> v \<noteq> [] then Some v else atts k
                | _ \<Rightarrow> atts k)"
proof (induction ks arbitrary: atts)
  case Nil
  then show ?case by (auto split: sum.splits option.splits)
next
  case (Cons a ks)
  then obtain v0 where g: "h_getAttribute h a = Inr v0"
    by (cases "h_getAttribute h a") auto
  let ?atts1 = "case v0 of None \<Rightarrow> atts | Some v \<Rightarrow> if v \<noteq> [] then atts(a \<mapsto> v) else atts"
  from Cons.prems g have "collectAttributes h ks ?atts1 = Inr atts'" by simp
  from Cons.IH [OF this] g show ?case
    by (auto split: sum.splits option.splits if_splits)
qed

lemma collectAttributes_truthy:
  assumes "collectAttributes h ks Map.empty = Inr atts" and "atts k = Some v"
  shows "v \<noteq> []"
  using collectAttributes_lookup [OF assms(1), of k] assms(2)
  by (auto split: sum.splits option.splits if_splits)

lemma extractElementInfo_SomeD:
  assumes "extractElementInfo h = Some el"
  obtains tagName atts textContent where
    "h_tagName h = Inr tagName" "collectAttributes h attrNames Map.empty = Inr atts"
    "h_textContent h = Inr textContent"
    "role el = inferRole tagName atts"
    "name_or_label el = getElementName atts textContent"
    "suggested_locator el = generateLocator (role el) (name_or_label el) atts tagName"
    "text_content el = Some (orElse (map_option trim textContent) [])"
    "tag_name el = toLowerCase tagName"
    "attributes el = atts"
proof -
  from assms obtain tagName where t: "h_tagName h = Inr tagName"
    by (cases "h_tagName h") (auto simp: extractElementInfo_def)
  from assms t obtain atts where a: "collectAttributes h attrNames Map.empty = Inr atts"
    by (cases "collectAttributes h attrNames Map.empty") (auto simp: extractElementInfo_def)
  from assms t a obtain textContent where c: "h_textContent h = Inr textContent"
    by (cases "h_textContent h") (auto simp: extractElementInfo_def)
  from assms t a c have
    "el = \<lparr> role = inferRole tagName atts,
            name_or_label = getElementName atts textContent,
            suggested_locator =
              generateLocator (inferRole tagName atts) (getElementName atts textContent) atts tagName,
            text_content = Some (orElse (map_option trim textContent) []),
            tag_name = toLowerCase tagName,
            attributes = atts \<rparr>"
    by (simp add: extractElementInfo_def Let_def)
  with t a c that show thesis by simp
qed

lemma inferRole_nonEmpty:
  "inferRole tagName atts = roleTable (nonEmpty (atts ''role'')) (toLowerCase tagName) (atts ''type'')"
  by (cases "atts ''role''")
    (simp_all add: inferRole_def roleTable_def nonEmpty_def inputRole_def Let_def)

lemma getElementName_chain:
  "getElementName atts textContent = firstNonEmpty (nameChain atts textContent) ''unnamed element''"
proof -
  have tc: "truthy textContent \<and> trim (strOfNull textContent) \<noteq> []
      \<longleftrightarrow> trim (orElse textContent []) \<noteq> []"
    by (cases textContent) (simp_all add: trim_def)
  have tc': "trim (orElse textContent []) \<noteq> []
      \<Longrightarrow> trim (strOfNull textContent) = trim (orElse textContent [])"
    by (cases textContent) (simp_all add: trim_def)
  show ?thesis
    unfolding getElementName_def nameChain_def firstNonEmpty_Cons firstNonEmpty_Nil tc
    by (simp add: truthy_orElse strOf_orElse tc')
qed

lemma getElementName_not_empty: "getElementName atts textContent \<noteq> []"
  unfolding getElementName_def
  by (auto simp: truthy_orElse strOf_orElse strOfNull_orElse)

lemma generateLocator_choose:
  assumes "\<And>k v. atts k = Some v \<Longrightarrow> v \<noteq> []" and "nm \<noteq> []"
  shows "generateLocator rl nm atts tagName = render (chooseLocator rl nm atts (toLowerCase tagName))"
proof -
  have t: "truthy (atts k) \<longleftrightarrow> atts k \<noteq> None" for k
    using assms(1) [of k] by (cases "atts k") auto
  show ?thesis
    unfolding generateLocator_def chooseLocator_def t using assms(2)
    by auto
qed

lemmas eval_simps = plainHandle_def extractElementInfo_def attrNames_def inferRole_def Let_def
  toLowerCase_def toLowerChar_def upperLetters_def lowerLetters_def getElementName_def generateLocator_def trim_def isSpace_def

subsection \<open>Role classification\<close>

text \<open>
  Claim C4. The role classifier is a total function that follows the documented table.
  On any tag name and attribute map, \<open>inferRole\<close> returns the explicit role when that
  attribute is present with a non-empty value, and otherwise the table's entry for the
  lower-cased tag and, for \<open>input\<close>, the type (every other tag gives \<open>generic\<close>). On the
  attribute map the extractor builds, where only non-empty values are kept, the role of
  the extracted element is the table's entry for the element's own role attribute, tag
  name and type attribute.
\<close>

theorem role_classification:
  "inferRole tagName atts
     = roleTable (nonEmpty (atts ''role'')) (toLowerCase tagName) (atts ''type'')
   \<and> (extractElementInfo h = Some el \<longrightarrow>
        role el = roleTable (attributes el ''role'') (tag_name el) (attributes el ''type''))"
proof (intro conjI impI)
  show "inferRole tagName atts
     = roleTable (nonEmpty (atts ''role'')) (toLowerCase tagName) (atts ''type'')"
    by (rule inferRole_nonEmpty)
next
  assume "extractElementInfo h = Some el"
  then obtain tg atts' where
    a: "collectAttributes h attrNames Map.empty = Inr atts'"
    and r: "role el = inferRole tg atts'" and tn: "tag_name el = toLowerCase tg"
    and at: "attributes el = atts'"
    by (rule extractElementInfo_SomeD)
  have "nonEmpty (atts' ''role'') = atts' ''role''"
    using collectAttributes_truthy [OF a, of "''role''"]
    by (cases "atts' ''role''") (simp_all add: nonEmpty_def)
  with r tn at show "role el = roleTable (attributes el ''role'') (tag_name el) (attributes el ''type'')"
    by (simp add: inferRole_nonEmpty)
qed

theorem role_classification_witness:
  "inferRole ''TEXTAREA'' Map.empty = ''textbox''
   \<and> (\<exists>el. extractElementInfo checkboxInput = Some el \<and> role el = ''checkbox''
         \<and> attributes el ''role'' = None)"
proof -
  obtain el where el: "extractElementInfo checkboxInput = Some el"
    by (simp add: checkboxInput_def eval_simps)
  have r: "attributes el ''role'' = None" and ty: "attributes el ''type'' = Some ''checkbox''"
    and tg: "tag_name el = ''input''"
    using el by (auto simp: checkboxInput_def eval_simps)
  from role_classification [of "''TEXTAREA''" Map.empty checkboxInput el] el r ty tg
  show ?thesis
    by (simp add: roleTable_def inputRole_def nonEmpty_def toLowerCase_def toLowerChar_def upperLetters_def lowerLetters_def)
qed

subsection \<open>Name resolution\<close>

text \<open>
  Claim C5. The name of an interactive element is the first non-empty entry of the chain
  aria-label, data-testid, placeholder, trimmed text content, name, id, href, and the
  literal \<open>unnamed element\<close> when every entry is empty; the href entry is that of any
  element with the attribute, which links have. This holds of \<open>getElementName\<close>
  on every input, and so of the \<open>name_or_label\<close> of every extracted element, over its
  own attributes and the text content read from its node.
\<close>

theorem name_priority_chain:
  "getElementName atts textContent = firstNonEmpty (nameChain atts textContent) ''unnamed element''
   \<and> (extractElementInfo h = Some el \<longrightarrow>
        (\<exists>tc. h_textContent h = Inr tc
           \<and> name_or_label el = firstNonEmpty (nameChain (attributes el) tc) ''unnamed element''))"
proof (intro conjI impI)
  show "getElementName atts textContent = firstNonEmpty (nameChain atts textContent) ''unnamed element''"
    by (rule getElementName_chain)
next
  assume "extractElementInfo h = Some el"
  then obtain atts' tc where "h_textContent h = Inr tc"
    "name_or_label el = getElementName atts' tc" "attributes el = atts'"
    by (rule extractElementInfo_SomeD)
  then show "\<exists>tc. h_textContent h = Inr tc
     \<and> name_or_label el = firstNonEmpty (nameChain (attributes el) tc) ''unnamed element''"
    by (auto simp: getElementName_chain)
qed

theorem name_priority_chain_witness:
  "getElementName [''id'' \<mapsto> ''agree''] (Some ''  I agree '') = ''I agree''
   \<and> (\<exists>el. extractElementInfo emailInput = Some el \<and> name_or_label el = ''Email address'')"
proof -
  obtain el where el: "extractElementInfo emailInput = Some el"
    by (simp add: emailInput_def eval_simps)
  have a: "attributes el ''aria-label'' = Some ''Email address''"
    using el by (auto simp: emailInput_def eval_simps)
  from name_priority_chain [of "[''id'' \<mapsto> ''agree'']" "Some ''  I agree ''" emailInput el] el a
  show ?thesis
    by (auto simp: nameChain_def firstNonEmpty_Cons trim_def isSpace_def)
qed

subsection \<open>Locator priority for interactive elements\<close>

text \<open>
  Claim C6. The locator of every extracted interactive element is chosen in the stated
  order: data-testid, then aria-label, then role button or link with a name other than
  the fallback, then textbox with placeholder, then textbox with aria-label, then the
  name attribute, then the id, then the bare tag. In particular an element with
  data-testid \<open>email\<close> and aria-label \<open>Email address\<close> gets the test-id locator,
  whatever its role, name and tag.
\<close>

theorem locator_priority:
  "(extractElementInfo h = Some el \<longrightarrow>
      suggested_locator el
        = render (chooseLocator (role el) (name_or_label el) (attributes el) (tag_name el)))
   \<and> (atts ''data-testid'' = Some ''email'' \<and> atts ''aria-label'' = Some ''Email address'' \<longrightarrow>
        generateLocator rl nm atts tagName = render (ByTestId ''email''))"
proof (intro conjI impI)
  assume "extractElementInfo h = Some el"
  then obtain tg atts' tc where
    a: "collectAttributes h attrNames Map.empty = Inr atts'"
    and n: "name_or_label el = getElementName atts' tc"
    and l: "suggested_locator el = generateLocator (role el) (name_or_label el) atts' tg"
    and tn: "tag_name el = toLowerCase tg" and at: "attributes el = atts'"
    by (rule extractElementInfo_SomeD)
  have "generateLocator (role el) (name_or_label el) atts' tg
      = render (chooseLocator (role el) (name_or_label el) atts' (toLowerCase tg))"
    by (rule generateLocator_choose)
      (auto simp: n getElementName_not_empty dest: collectAttributes_truthy [OF a])
  with l tn at show "suggested_locator el
        = render (chooseLocator (role el) (name_or_label el) (attributes el) (tag_name el))"
    by simp
next
  assume "atts ''data-testid'' = Some ''email'' \<and> atts ''aria-label'' = Some ''Email address''"
  then show "generateLocator rl nm atts tagName = render (ByTestId ''email'')"
    by (simp add: generateLocator_def)
qed

theorem locator_priority_witness:
  "(\<exists>el. extractElementInfo emailInput = Some el
       \<and> suggested_locator el = ''page.getByTestId('' @ [squote] @ ''email'' @ [squote] @ '')'')
   \<and> generateLocator ''textbox'' ''Email address''
        [''data-testid'' \<mapsto> ''email'', ''aria-label'' \<mapsto> ''Email address''] ''input''
      = ''page.getByTestId('' @ [squote] @ ''email'' @ [squote] @ '')''"
proof -
  obtain el where el: "extractElementInfo emailInput = Some el"
    by (simp add: emailInput_def eval_simps)
  have a: "attributes el ''data-testid'' = Some ''email''"
    using el by (auto simp: emailInput_def eval_simps)
  from locator_priority [of emailInput el
      "[''data-testid'' \<mapsto> ''email'', ''aria-label'' \<mapsto> ''Email address'']"
      "''textbox''" "''Email address''" "''input''"] el a
  show ?thesis
    by (simp add: chooseLocator_def)
qed

lemma filter_nonempty: "0 < length (filter P xs) \<longleftrightarrow> (\<exists>x \<in> set xs. P x)"
  by (simp add: filter_empty_conv)

lemma labels_member: "l \<in> set (map snd (filter fst ts)) \<longleftrightarrow> (True, l) \<in> set ts"
  by (induction ts) auto

lemma inferActions_triggers:
  "inferActions ff ie ce = map snd (filter fst (actionTriggers ff ie ce))"
proof -
  have sb: "list_ex (\<lambda>sb. suggested_locator sb = suggested_locator el) (filter isSubmitButton ie)
      \<longleftrightarrow> (\<exists>sb \<in> set ie. isSubmitButton sb \<and> suggested_locator sb = suggested_locator el)" for el
    by (auto simp: list_ex_iff)
  have ne: "xs \<noteq> [] \<longleftrightarrow> 0 < length xs" for xs :: "PageElement list"
    by simp
  have app: "map snd (filter fst ((b, l) # ts)) = (if b then [l] else []) @ map snd (filter fst ts)"
    for b l and ts :: "(bool \<times> string) list"
    by simp
  show ?thesis
    unfolding inferActions_def actionTriggers_def Let_def sb app ne
      filter_nonempty [symmetric]
    by (simp only: append_assoc list.map filter.simps append_Nil2)
qed

subsection \<open>Action inference\<close>

text \<open>
  Claim C7, as amended. Action inference is a function of its three element lists. Its
  result holds exactly the labels whose trigger condition is true, in the fixed order
  fill form fields, submit form, navigate via links, interact with buttons, verify page
  headings, verify text content, verify list content, verify table data, verify images.
  When every button-role element shares its locator with a submit-triggering element,
  the label \<open>interact with buttons\<close> is not produced. With no form field, no interactive
  element that is a button or a link or whose name holds \<open>submit\<close>, \<open>sign in\<close>,
  \<open>login\<close> or \<open>save\<close>, and a non-empty content list made of headings only (two
  headings, say), the result is exactly \<open>[verify page headings]\<close>. The condition on
  the names is needed: the submit trigger looks at every interactive element, whatever
  its role, as the page with the save checkbox shows further down.
\<close>

theorem action_inference:
  "inferActions ff ie ce = map snd (filter fst (actionTriggers ff ie ce))
   \<and> ((\<forall>el \<in> set ie. role el = ''button'' \<longrightarrow>
          (\<exists>sb \<in> set ie. isSubmitButton sb \<and> suggested_locator sb = suggested_locator el))
        \<longrightarrow> ''interact with buttons'' \<notin> set (inferActions ff ie ce))
   \<and> (ff = [] \<and> (\<forall>el \<in> set ie. role el \<noteq> ''button'' \<and> role el \<noteq> ''link'' \<and> \<not> isSubmitButton el)
        \<and> ce \<noteq> [] \<and> (\<forall>el \<in> set ce. role el = ''heading'')
        \<longrightarrow> inferActions ff ie ce = [''verify page headings''])"
proof (intro conjI impI)
  show "inferActions ff ie ce = map snd (filter fst (actionTriggers ff ie ce))"
    by (rule inferActions_triggers)
next
  assume "\<forall>el \<in> set ie. role el = ''button'' \<longrightarrow>
          (\<exists>sb \<in> set ie. isSubmitButton sb \<and> suggested_locator sb = suggested_locator el)"
  then have n: "\<not> (\<exists>el \<in> set ie. role el = ''button''
          \<and> \<not> (\<exists>sb \<in> set ie. isSubmitButton sb \<and> suggested_locator sb = suggested_locator el))"
    by blast
  have "(True, ''interact with buttons'') \<notin> set (actionTriggers ff ie ce)"
    unfolding actionTriggers_def using n by (simp del: bex_simps)
  then show "''interact with buttons'' \<notin> set (inferActions ff ie ce)"
    by (simp only: inferActions_triggers labels_member not_False_eq_True)
next
  assume a: "ff = [] \<and> (\<forall>el \<in> set ie. role el \<noteq> ''button'' \<and> role el \<noteq> ''link'' \<and> \<not> isSubmitButton el)
        \<and> ce \<noteq> [] \<and> (\<forall>el \<in> set ce. role el = ''heading'')"
  have f1: "filter isSubmitButton ie = []"
    using a by (simp add: filter_empty_conv)
  have f2: "filter (\<lambda>el. role el = ''link'') ie = []"
    using a by (simp add: filter_empty_conv)
  have f3: "filter (\<lambda>el. role el = ''button'' \<and> \<not> list_ex (\<lambda>sb. suggested_locator sb = suggested_locator el) []) ie = []"
    using a by (simp add: filter_empty_conv)
  have f4: "filter (\<lambda>el. role el = ''heading'') ce = ce"
    using a by (simp add: filter_id_conv)
  have f5: "filter (\<lambda>el. role el = ''paragraph'') ce = []" "filter (\<lambda>el. role el = ''list'') ce = []"
    "filter (\<lambda>el. role el = ''table'') ce = []" "filter (\<lambda>el. role el = ''image'') ce = []"
    using a by (simp_all add: filter_empty_conv)
  from a have f0: "ff = []" and c: "0 < length ce" by simp_all
  show "inferActions ff ie ce = [''verify page headings'']"
    unfolding inferActions_def Let_def f1 f2 f3 f4 f5 f0 using c by simp
qed

theorem action_inference_witness:
  "inferActions [] [] [sampleElement ''heading'' ''Welcome'' ''a'', sampleElement ''heading'' ''News'' ''b'']
     = [''verify page headings'']
   \<and> inferActions [] [sampleElement ''button'' ''Save changes'' ''s'', sampleElement ''button'' ''Cancel'' ''c''] []
     = [''submit form'', ''interact with buttons'']
   \<and> ''interact with buttons'' \<notin> set (inferActions []
        [sampleElement ''button'' ''Save changes'' ''s'', sampleElement ''button'' ''More'' ''s''] [])"
proof -
  have s: "isSubmitButton (sampleElement ''button'' ''Save changes'' ''s'')"
    by (simp add: isSubmitButton_def sampleElement_def toLowerCase_def toLowerChar_def upperLetters_def lowerLetters_def)
  have c: "\<not> isSubmitButton (sampleElement ''button'' ''Cancel'' ''c'')"
    by (simp add: isSubmitButton_def sampleElement_def toLowerCase_def toLowerChar_def upperLetters_def lowerLetters_def)
  have m: "\<not> isSubmitButton (sampleElement ''button'' ''More'' ''s'')"
    by (simp add: isSubmitButton_def sampleElement_def toLowerCase_def toLowerChar_def upperLetters_def lowerLetters_def)
  have r: "role (sampleElement rl nm loc) = rl" "suggested_locator (sampleElement rl nm loc) = loc"
    for rl nm loc by (simp_all add: sampleElement_def)
  note thm1 = action_inference [of "[]" "[]"
      "[sampleElement ''heading'' ''Welcome'' ''a'', sampleElement ''heading'' ''News'' ''b'']"]
  have 1: "inferActions [] [] [sampleElement ''heading'' ''Welcome'' ''a'', sampleElement ''heading'' ''News'' ''b'']
     = [''verify page headings'']"
    by (rule thm1 [THEN conjunct2, THEN conjunct2, THEN mp]) (simp add: r)
  note thm2 = action_inference [of "[]"
      "[sampleElement ''button'' ''Save changes'' ''s'', sampleElement ''button'' ''Cancel'' ''c'']" "[]"]
  have 2: "inferActions [] [sampleElement ''button'' ''Save changes'' ''s'', sampleElement ''button'' ''Cancel'' ''c''] []
     = [''submit form'', ''interact with buttons'']"
    unfolding thm2 [THEN conjunct1] by (simp add: actionTriggers_def r s c)
  note thm3 = action_inference [of "[]"
      "[sampleElement ''button'' ''Save changes'' ''s'', sampleElement ''button'' ''More'' ''s'']" "[]"]
  have 3: "''interact with buttons'' \<notin> set (inferActions []
        [sampleElement ''button'' ''Save changes'' ''s'', sampleElement ''button'' ''More'' ''s''] [])"
    by (rule thm3 [THEN conjunct2, THEN conjunct1, THEN mp]) (simp add: r s m)
  from 1 2 3 show ?thesis by simp
qed

subsection \<open>Deduplication by locator\<close>

lemma findIndex_ge: "- 1 \<le> findIndex P xs"
  by (induction xs) (auto simp: Let_def)

lemma findIndex_none: "findIndex P xs < 0 \<longleftrightarrow> \<not> (\<exists>x \<in> set xs. P x)"
  using findIndex_ge [of P] by (induction xs) (auto simp: Let_def)

lemma findIndex_less: "findIndex P xs < int (length xs)"
  by (induction xs) (auto simp: Let_def)

lemma findIndex_append:
  "findIndex P (pre @ xs) =
     (if \<exists>e \<in> set pre. P e then findIndex P pre
      else if findIndex P xs < 0 then - 1 else int (length pre) + findIndex P xs)"
proof (induction pre)
  case Nil
  show ?case using findIndex_ge [of P xs] by auto
next
  case (Cons a pre)
  show ?case using Cons.IH findIndex_none [of P pre] findIndex_none [of P xs] findIndex_ge [of P xs]
    by (auto simp: Let_def)
qed

lemma firstWins_cong: "set seen = set seen' \<Longrightarrow> firstWins seen xs = firstWins seen' xs"
proof (induction xs arbitrary: seen seen')
  case Nil
  show ?case by simp
next
  case (Cons x xs)
  from Cons.prems have "set (suggested_locator x # seen) = set (suggested_locator x # seen')"
    by simp
  from Cons.IH [OF this] Cons.IH [OF Cons.prems] Cons.prems show ?case by simp
qed

lemma filterIndexed_firstWins:
  "map fst (filter (\<lambda>(x, i). int i = findIndex (\<lambda>e. suggested_locator e = suggested_locator x) (pre @ xs))
              (zip xs [length pre ..< length pre + length xs]))
   = firstWins (map suggested_locator pre) xs"
proof (induction xs arbitrary: pre)
  case Nil
  show ?case by simp
next
  case (Cons y ys)
  let ?n = "length pre"
  have "[?n ..< ?n + length (y # ys)] = ?n # [Suc ?n ..< ?n + length (y # ys)]"
    by (rule upt_conv_Cons) simp
  then have z: "zip (y # ys) [?n ..< ?n + length (y # ys)]
      = (y, ?n) # zip ys [length (pre @ [y]) ..< length (pre @ [y]) + length ys]"
    by (simp del: upt_Suc)
  have keep: "int ?n = findIndex (\<lambda>e. suggested_locator e = suggested_locator y) (pre @ y # ys)
      \<longleftrightarrow> suggested_locator y \<notin> set (map suggested_locator pre)"
  proof -
    have m: "suggested_locator y \<in> set (map suggested_locator pre)
        \<longleftrightarrow> (\<exists>e \<in> set pre. suggested_locator e = suggested_locator y)"
      by (induction pre) auto
    show ?thesis
      unfolding m findIndex_append
      using findIndex_less [of "\<lambda>e. suggested_locator e = suggested_locator y" pre]
      by simp
  qed
  have ih: "map fst (filter (\<lambda>(x, i). int i = findIndex (\<lambda>e. suggested_locator e = suggested_locator x) (pre @ y # ys))
              (zip ys [length (pre @ [y]) ..< length (pre @ [y]) + length ys]))
      = firstWins (map suggested_locator (pre @ [y])) ys"
    using Cons.IH [of "pre @ [y]"] by simp
  have c: "suggested_locator y \<in> set (map suggested_locator pre) \<Longrightarrow>
      firstWins (map suggested_locator (pre @ [y])) ys = firstWins (map suggested_locator pre) ys"
    by (rule firstWins_cong) auto
  have d: "firstWins (map suggested_locator (pre @ [y])) ys
      = firstWins (suggested_locator y # map suggested_locator pre) ys"
    by (rule firstWins_cong) auto
  show ?case
    unfolding z using keep ih c d by simp
qed

lemma uniqueElements_firstWins: "uniqueElements elements = firstWins [] elements"
  using filterIndexed_firstWins [of "[]" elements]
  by (simp add: uniqueElements_def filterIndexed_def)

lemma firstWins_not_seen: "e \<in> set (firstWins seen xs) \<Longrightarrow> suggested_locator e \<notin> set seen"
proof (induction xs arbitrary: seen)
  case Nil
  then show ?case by simp
next
  case (Cons y ys)
  show ?case
  proof (cases "suggested_locator y \<in> set seen")
    case True
    with Cons.prems have "e \<in> set (firstWins seen ys)" by simp
    then show ?thesis by (rule Cons.IH)
  next
    case False
    with Cons.prems have "e = y \<or> e \<in> set (firstWins (suggested_locator y # seen) ys)" by simp
    then show ?thesis
    proof
      assume "e = y"
      with False show ?thesis by simp
    next
      assume "e \<in> set (firstWins (suggested_locator y # seen) ys)"
      from Cons.IH [OF this] show ?thesis by simp
    qed
  qed
qed

lemma firstWins_distinct: "distinct (map suggested_locator (firstWins seen xs))"
  by (induction xs arbitrary: seen) (auto dest: firstWins_not_seen)

lemma firstWins_subseq: "subseq (firstWins seen xs) xs"
  by (induction xs arbitrary: seen) auto

lemma firstWins_filter_seen:
  "l \<in> set seen \<Longrightarrow> filter (\<lambda>e. suggested_locator e = l) (firstWins seen xs) = []"
  by (auto simp: filter_empty_conv dest: firstWins_not_seen)

lemma firstWins_first:
  "c \<in> set xs \<Longrightarrow> suggested_locator c \<notin> set seen \<Longrightarrow>
     \<exists>x. find (\<lambda>e. suggested_locator e = suggested_locator c) xs = Some x
       \<and> filter (\<lambda>e. suggested_locator e = suggested_locator c) (firstWins seen xs) = [x]"
proof (induction xs arbitrary: seen)
  case Nil
  then show ?case by simp
next
  case (Cons y ys)
  show ?case
  proof (cases "suggested_locator y = suggested_locator c")
    case True
    with Cons.prems show ?thesis
      by (simp add: firstWins_filter_seen)
  next
    case False
    with Cons.prems have c: "c \<in> set ys" by auto
    show ?thesis
    proof (cases "suggested_locator y \<in> set seen")
      case True
      with False Cons.IH [OF c Cons.prems(2)] show ?thesis by simp
    next
      case n: False
      from Cons.prems(2) False have "suggested_locator c \<notin> set (suggested_locator y # seen)"
        by auto
      from Cons.IH [OF c this] False n show ?thesis by simp
    qed
  qed
qed

lemma collectCandidates_concat:
  "collectCandidates q sels acc = Inr cs \<Longrightarrow> cs = acc @ concat (map (candidatesOf q) sels)"
proof (induction sels arbitrary: acc)
  case Nil
  then show ?case by simp
next
  case (Cons s sels)
  then obtain hs where h: "q s = Inr hs" by (cases "q s") auto
  with Cons.prems have "collectCandidates q sels (acc @ List.map_filter extractElementInfo hs) = Inr cs"
    by simp
  from Cons.IH [OF this] h show ?case by (simp add: candidatesOf_def)
qed

text \<open>
  Claim C3. The candidates of an extraction pass are generated in the order of the
  selector catalogue and, within a selector, in the order of the query's handles. When
  the pass returns, the returned list is a subsequence of the candidates with pairwise
  different locators, and for every candidate the returned elements with its locator
  are exactly one: the first candidate with that locator.
\<close>

theorem dedup_first_wins:
  assumes "extractElements q = Inr ks"
  shows "distinct (map suggested_locator ks)
    \<and> subseq ks (concat (map (candidatesOf q) locators))
    \<and> (\<forall>c \<in> set (concat (map (candidatesOf q) locators)).
         \<exists>x. find (\<lambda>e. suggested_locator e = suggested_locator c) (concat (map (candidatesOf q) locators)) = Some x
           \<and> filter (\<lambda>e. suggested_locator e = suggested_locator c) ks = [x])"
proof -
  from assms obtain cs where cs: "collectCandidates q locators [] = Inr cs"
    and ks: "ks = uniqueElements cs"
    by (cases "collectCandidates q locators []") (auto simp: extractElements_def)
  from collectCandidates_concat [OF cs] have c: "concat (map (candidatesOf q) locators) = cs"
    by simp
  show ?thesis
    unfolding c ks uniqueElements_firstWins
    using firstWins_first [of _ cs "[]"]
    by (auto simp: firstWins_distinct firstWins_subseq)
qed

lemma collectCandidates_total:
  "\<forall>s \<in> set sels. \<exists>hs. q s = Inr hs \<Longrightarrow>
     collectCandidates q sels acc = Inr (acc @ concat (map (candidatesOf q) sels))"
proof (induction sels arbitrary: acc)
  case Nil
  show ?case by simp
next
  case (Cons s sels)
  then obtain hs where h: "q s = Inr hs" by auto
  from Cons.prems have "\<forall>s \<in> set sels. \<exists>hs. q s = Inr hs" by simp
  from Cons.IH [OF this] h show ?case by (simp add: candidatesOf_def)
qed

lemma extractElements_total:
  "\<forall>s \<in> set locators. \<exists>hs. q s = Inr hs \<Longrightarrow>
     extractElements q = Inr (firstWins [] (concat (map (candidatesOf q) locators)))"
  by (simp add: extractElements_def collectCandidates_total uniqueElements_firstWins)

theorem dedup_first_wins_witness:
  "map role (concat (map (candidatesOf testidPage) locators))
     = [''textbox'', ''button'', ''textbox'', ''button'']
   \<and> (\<exists>ks. extractElements testidPage = Inr ks
         \<and> distinct (map suggested_locator ks)
         \<and> map role ks = [''textbox''])"
proof -
  have c: "map role (concat (map (candidatesOf testidPage) locators))
     = [''textbox'', ''button'', ''textbox'', ''button'']"
    by (simp add: candidatesOf_def testidPage_def locators_def dquote_def List.map_filter_simps
        testidInput_def testidButton_def eval_simps)
  have "\<forall>s \<in> set locators. \<exists>hs. testidPage s = Inr hs"
    by (simp add: testidPage_def)
  then have k: "extractElements testidPage
      = Inr (firstWins [] (concat (map (candidatesOf testidPage) locators)))"
    by (rule extractElements_total)
  have r: "map role (firstWins [] (concat (map (candidatesOf testidPage) locators))) = [''textbox'']"
    by (simp add: candidatesOf_def testidPage_def locators_def dquote_def List.map_filter_simps
        testidInput_def testidButton_def eval_simps)
  from dedup_first_wins [OF k] c k r show ?thesis by simp
qed

subsection \<open>Attribute maps\<close>

lemma bindE_Inr_iff: "bindE m f = Inr y \<longleftrightarrow> (\<exists>x. m = Inr x \<and> f x = Inr y)"
  by (cases m) simp_all

lemma headingElement_SomeD:
  "headingElement h = Inr (Some el) \<Longrightarrow>
     \<exists>i c. h_getAttribute h ''id'' = Inr i \<and> h_getAttribute h ''class'' = Inr c
       \<and> role el = ''heading''
       \<and> attributes el = [''id'' \<mapsto> orElse i [], ''class'' \<mapsto> orElse c []]"
  by (auto simp: headingElement_def bindE_Inr_iff Let_def split: if_splits)

lemma paragraphElement_SomeD:
  "paragraphElement h = Inr (Some el) \<Longrightarrow>
     \<exists>i c. h_getAttribute h ''id'' = Inr i \<and> h_getAttribute h ''class'' = Inr c
       \<and> role el = ''paragraph''
       \<and> attributes el = [''id'' \<mapsto> orElse i [], ''class'' \<mapsto> orElse c []]"
  by (auto simp: paragraphElement_def bindE_Inr_iff Let_def split: if_splits)

lemma listElement_SomeD:
  "listElement h = Inr (Some el) \<Longrightarrow>
     \<exists>i c t. h_getAttribute h ''id'' = Inr i \<and> h_getAttribute h ''class'' = Inr c
       \<and> role el = ''list''
       \<and> attributes el = [''id'' \<mapsto> orElse i [], ''class'' \<mapsto> orElse c [], ''type'' \<mapsto> t]"
proof -
  assume a: "listElement h = Inr (Some el)"
  then obtain tg items i c where
    i: "h_getAttribute h ''id'' = Inr i" and c: "h_getAttribute h ''class'' = Inr c"
    and r: "(case items of
          [] \<Rightarrow> Inr None
        | item0 # _ \<Rightarrow>
            bindE (h_textContent item0) (\<lambda>tc.
              Inr (Some
                   \<lparr> role = ''list'',
                     name_or_label =
                       (if toLowerCase tg = ''ul'' then ''unordered'' else ''ordered'')
                         @ '' list with '' @ numberToString (length items) @ '' items'',
                     suggested_locator =
                       generateContentLocator ''list'' (orElse (map_option trim tc) [])
                         (toLowerCase tg) i c,
                     text_content =
                       Some (''List with '' @ numberToString (length items)
                             @ '' items. First item: '' @ orElse (map_option trim tc) []),
                     tag_name = toLowerCase tg,
                     attributes = [''id'' \<mapsto> orElse i [], ''class'' \<mapsto> orElse c [],
                                   ''type'' \<mapsto> (if toLowerCase tg = ''ul'' then ''unordered'' else ''ordered'')] \<rparr>)))
        = Inr (Some el)"
    unfolding listElement_def bindE_Inr_iff Let_def by blast
  show ?thesis
  proof (cases items)
    case Nil
    with r show ?thesis by simp
  next
    case (Cons item0 rest)
    with r i c show ?thesis
      by (auto simp: bindE_Inr_iff)
  qed
qed

lemma tableElement_SomeD:
  "tableElement h = Inr (Some el) \<Longrightarrow>
     \<exists>i c. h_getAttribute h ''id'' = Inr i \<and> h_getAttribute h ''class'' = Inr c
       \<and> role el = ''table''
       \<and> attributes el = [''id'' \<mapsto> orElse i [], ''class'' \<mapsto> orElse c []]"
  by (auto simp: tableElement_def bindE_Inr_iff Let_def split: if_splits)

lemma imageElement_SomeD:
  "imageElement h = Inr (Some el) \<Longrightarrow>
     \<exists>i c s a. h_getAttribute h ''id'' = Inr i \<and> h_getAttribute h ''class'' = Inr c
       \<and> h_getAttribute h ''src'' = Inr s \<and> h_getAttribute h ''alt'' = Inr a
       \<and> role el = ''image''
       \<and> attributes el = [''id'' \<mapsto> orElse i [], ''class'' \<mapsto> orElse c [],
                           ''src'' \<mapsto> orElse s [], ''alt'' \<mapsto> orElse a []]"
  by (auto simp: imageElement_def bindE_Inr_iff Let_def split: if_splits)

lemma contentBodies_SomeD:
  assumes "body \<in> contentBodies" and "body h = Inr (Some el)"
  shows "\<exists>i c. h_getAttribute h ''id'' = Inr i \<and> h_getAttribute h ''class'' = Inr c
       \<and> attributes el ''id'' = Some (orElse i []) \<and> attributes el ''class'' = Some (orElse c [])
       \<and> attributes el ''role'' = None
       \<and> role el \<in> {''heading'', ''paragraph'', ''list'', ''table'', ''image''}"
proof -
  from assms(1) consider "body = headingElement" | "body = paragraphElement" | "body = listElement"
    | "body = tableElement" | "body = imageElement"
    by (auto simp: contentBodies_def)
  then show ?thesis
  proof cases
    case 1
    with assms(2) headingElement_SomeD [of h el] show ?thesis by auto
  next
    case 2
    with assms(2) paragraphElement_SomeD [of h el] show ?thesis by auto
  next
    case 3
    with assms(2) listElement_SomeD [of h el] show ?thesis by auto
  next
    case 4
    with assms(2) tableElement_SomeD [of h el] show ?thesis by auto
  next
    case 5
    with assms(2) imageElement_SomeD [of h el] show ?thesis by auto
  qed
qed

lemma runPass_member:
  "el \<in> set (runPass body hs) \<Longrightarrow> \<exists>h \<in> set hs. body h = Inr (Some el)"
  by (induction hs) (auto split: sum.splits option.splits)

lemma extractContentElements_member:
  assumes "extractContentElements q = Inr ces" and "el \<in> set ces"
  shows "\<exists>body h. body \<in> contentBodies \<and> body h = Inr (Some el)"
proof -
  from assms(1) obtain hs ps ls ts im where
    "ces = runPass headingElement hs @ runPass paragraphElement ps
            @ runPass listElement ls @ runPass tableElement ts @ runPass imageElement im"
    by (auto simp: extractContentElements_def bindE_Inr_iff)
  with assms(2) consider "el \<in> set (runPass headingElement hs)"
    | "el \<in> set (runPass paragraphElement ps)" | "el \<in> set (runPass listElement ls)"
    | "el \<in> set (runPass tableElement ts)" | "el \<in> set (runPass imageElement im)"
    by auto
  then show ?thesis
    by cases (auto simp: contentBodies_def dest!: runPass_member)
qed

lemma extractElementInfo_attributes:
  assumes "extractElementInfo h = Some el"
  shows "attributes el k = Some v \<longleftrightarrow> k \<in> set attrNames \<and> v \<noteq> [] \<and> h_getAttribute h k = Inr (Some v)"
proof -
  from assms obtain atts where a: "collectAttributes h attrNames Map.empty = Inr atts"
    and at: "attributes el = atts"
    by (rule extractElementInfo_SomeD)
  from collectAttributes_lookup [OF a, of k] at show ?thesis
    by (auto split: sum.splits option.splits if_splits)
qed

text \<open>
  Claim C10. The attribute map of an extracted interactive element has a value at a key
  exactly when the key is one of the collected attribute names and the node's attribute
  is a non-empty string, which is then the value: absent and empty attributes are left
  out. Every element of a content pass has the keys \<open>id\<close> and \<open>class\<close>, and an image
  has \<open>src\<close> and \<open>alt\<close> as well, the value being the attribute's value, or the empty
  string when the attribute is absent; every content element of a page comes from one
  of these passes.
\<close>

theorem attribute_maps:
  "(extractElementInfo h = Some el \<longrightarrow>
      (\<forall>k v. attributes el k = Some v
         \<longleftrightarrow> k \<in> set attrNames \<and> v \<noteq> [] \<and> h_getAttribute h k = Inr (Some v)))
   \<and> (body \<in> contentBodies \<and> body h = Inr (Some el) \<longrightarrow>
        (\<exists>i c. h_getAttribute h ''id'' = Inr i \<and> h_getAttribute h ''class'' = Inr c
           \<and> attributes el ''id'' = Some (orElse i [])
           \<and> attributes el ''class'' = Some (orElse c [])))
   \<and> (imageElement h = Inr (Some el) \<longrightarrow>
        (\<exists>s a. h_getAttribute h ''src'' = Inr s \<and> h_getAttribute h ''alt'' = Inr a
           \<and> attributes el ''src'' = Some (orElse s [])
           \<and> attributes el ''alt'' = Some (orElse a [])))
   \<and> (extractContentElements q = Inr ces \<longrightarrow>
        (\<forall>c \<in> set ces. \<exists>body' h'. body' \<in> contentBodies \<and> body' h' = Inr (Some c)))"
proof (intro conjI impI allI ballI)
  fix k v
  assume "extractElementInfo h = Some el"
  then show "attributes el k = Some v
      \<longleftrightarrow> k \<in> set attrNames \<and> v \<noteq> [] \<and> h_getAttribute h k = Inr (Some v)"
    by (rule extractElementInfo_attributes)
next
  assume "body \<in> contentBodies \<and> body h = Inr (Some el)"
  then have "body \<in> contentBodies" "body h = Inr (Some el)" by simp_all
  from contentBodies_SomeD [OF this]
  show "\<exists>i c. h_getAttribute h ''id'' = Inr i \<and> h_getAttribute h ''class'' = Inr c
           \<and> attributes el ''id'' = Some (orElse i [])
           \<and> attributes el ''class'' = Some (orElse c [])"
    by blast
next
  assume "imageElement h = Inr (Some el)"
  from imageElement_SomeD [OF this]
  show "\<exists>s a. h_getAttribute h ''src'' = Inr s \<and> h_getAttribute h ''alt'' = Inr a
           \<and> attributes el ''src'' = Some (orElse s [])
           \<and> attributes el ''alt'' = Some (orElse a [])"
    by auto
next
  fix c
  assume "extractContentElements q = Inr ces" "c \<in> set ces"
  then show "\<exists>body' h'. body' \<in> contentBodies \<and> body' h' = Inr (Some c)"
    by (rule extractContentElements_member)
qed

theorem attribute_maps_witness:
  "(\<exists>el. extractElementInfo checkboxInput = Some el
       \<and> attributes el ''role'' = None \<and> attributes el ''id'' = Some ''agree'')
   \<and> (\<exists>el. imageElement logoImage = Inr (Some el)
       \<and> attributes el ''id'' = Some [] \<and> attributes el ''class'' = Some []
       \<and> attributes el ''alt'' = Some [] \<and> attributes el ''src'' = Some ''/img/logo.png'')"
proof -
  obtain el where el: "extractElementInfo checkboxInput = Some el"
    by (simp add: checkboxInput_def eval_simps)
  have g: "h_getAttribute checkboxInput ''role'' = Inr (Some [])"
    "h_getAttribute checkboxInput ''id'' = Inr (Some ''agree'')"
    by (simp_all add: checkboxInput_def plainHandle_def)
  note t1 = attribute_maps [of checkboxInput el, THEN conjunct1, THEN mp, OF el]
  have r: "attributes el ''role'' = None"
  proof (cases "attributes el ''role''")
    case None
    then show ?thesis .
  next
    case (Some a)
    with t1 [rule_format, of "''role''" a] g show ?thesis by auto
  qed
  have i: "attributes el ''id'' = Some ''agree''"
    using t1 [rule_format, of "''id''" "''agree''"] g by (simp add: attrNames_def)
  obtain im where im: "imageElement logoImage = Inr (Some im)"
    by (simp add: imageElement_def logoImage_def plainHandle_def)
  have b: "imageElement \<in> contentBodies" by (simp add: contentBodies_def)
  have gi: "h_getAttribute logoImage ''id'' = Inr None" "h_getAttribute logoImage ''class'' = Inr (Some [])"
    "h_getAttribute logoImage ''alt'' = Inr None"
    "h_getAttribute logoImage ''src'' = Inr (Some ''/img/logo.png'')"
    by (simp_all add: logoImage_def plainHandle_def)
  from attribute_maps [of logoImage im imageElement, THEN conjunct2] b im gi
  have "attributes im ''id'' = Some [] \<and> attributes im ''class'' = Some []
       \<and> attributes im ''alt'' = Some [] \<and> attributes im ''src'' = Some ''/img/logo.png''"
    by auto
  with el r i im show ?thesis by blast
qed

subsection \<open>Key elements and content elements\<close>

lemma firstWins_subset: "set (firstWins seen xs) \<subseteq> set xs"
  by (induction xs arbitrary: seen) auto

lemma map_filter_member: "x \<in> set (List.map_filter f xs) \<Longrightarrow> \<exists>h \<in> set xs. f h = Some x"
  by (auto simp: List.map_filter_def)

lemma extractElements_member:
  assumes "extractElements q = Inr ks" and "k \<in> set ks"
  shows "\<exists>h. extractElementInfo h = Some k"
proof -
  from assms(1) obtain cs where cs: "collectCandidates q locators [] = Inr cs"
    and ks: "ks = uniqueElements cs"
    by (auto simp: extractElements_def bindE_Inr_iff)
  from assms(2) ks firstWins_subset [of "[]" cs] have "k \<in> set cs"
    by (auto simp: uniqueElements_firstWins)
  with collectCandidates_concat [OF cs] obtain s where "k \<in> set (candidatesOf q s)"
    by auto
  then show ?thesis
    by (auto simp: candidatesOf_def split: sum.splits dest: map_filter_member)
qed

lemma extractElementInfo_role:
  assumes "extractElementInfo h = Some k"
  shows "attributes k ''role'' \<noteq> None
     \<or> role k \<in> {''button'', ''link'', ''textbox'', ''checkbox'', ''radio'', ''combobox'', ''generic''}"
proof -
  from assms obtain tg atts where "role k = inferRole tg atts" "attributes k = atts"
    by (rule extractElementInfo_SomeD)
  then show ?thesis
    by (cases "atts ''role''") (auto simp: inferRole_def Let_def)
qed

lemma analyzeBody_lists:
  "analyzeBody pg u = Inr a \<Longrightarrow>
     extractElements (p_queryAll pg) = Inr (key_elements a)
     \<and> extractContentElements (p_queryAll pg) = Inr (content_elements a)"
  by (auto simp: analyzeBody_def bindE_Inr_iff Let_def)

text \<open>
  Claim C2, as amended. Key elements and content elements come from independent passes
  without any deduplication across them. No element record occurs in both lists of an
  analysis: a key element whose role is one of the content roles has it from an
  explicit role attribute, which its attribute map then holds, and the attribute map
  of a content element never has the key \<open>role\<close>. The locators are another matter:
  the same node can enter both lists, and then with the same locator, as the
  counterexample below shows.
\<close>

theorem key_content_records_disjoint:
  assumes "analyzeBody pg u = Inr a"
  shows "set (key_elements a) \<inter> set (content_elements a) = {}"
proof (rule ccontr)
  assume "set (key_elements a) \<inter> set (content_elements a) \<noteq> {}"
  then obtain x where k: "x \<in> set (key_elements a)" and c: "x \<in> set (content_elements a)"
    by auto
  from analyzeBody_lists [OF assms] have
    ek: "extractElements (p_queryAll pg) = Inr (key_elements a)" and
    ec: "extractContentElements (p_queryAll pg) = Inr (content_elements a)"
    by simp_all
  from extractElements_member [OF ek k] obtain h where "extractElementInfo h = Some x" ..
  from extractElementInfo_role [OF this] have
    1: "attributes x ''role'' \<noteq> None
     \<or> role x \<in> {''button'', ''link'', ''textbox'', ''checkbox'', ''radio'', ''combobox'', ''generic''}" .
  from extractContentElements_member [OF ec c] obtain body h' where
    "body \<in> contentBodies" "body h' = Inr (Some x)" by blast
  from contentBodies_SomeD [OF this] have
    2: "attributes x ''role'' = None"
    and 3: "role x \<in> {''heading'', ''paragraph'', ''list'', ''table'', ''image''}"
    by auto
  from 1 2 3 show False by auto
qed

lemma editor_key:
  "map_sum id (map suggested_locator) (extractElements editorQuery)
     = Inr [''page.locator('' @ [squote] @ ''#editor'' @ [squote] @ '')'']"
proof -
  have "\<forall>s \<in> set locators. \<exists>hs. editorQuery s = Inr hs"
    by (simp add: editorQuery_def)
  then have "extractElements editorQuery
      = Inr (firstWins [] (concat (map (candidatesOf editorQuery) locators)))"
    by (rule extractElements_total)
  then show ?thesis
    by (simp add: candidatesOf_def editorQuery_def locators_def dquote_def List.map_filter_simps
        editorParagraph_def eval_simps)
qed

lemma editor_content:
  "map_sum id (map suggested_locator) (extractContentElements editorQuery)
     = Inr [''page.locator('' @ [squote] @ ''#editor'' @ [squote] @ '')'']"
  by (simp add: extractContentElements_def editorQuery_def dquote_def editorParagraph_def
      plainHandle_def paragraphElement_def trim_def isSpace_def generateContentLocator_def Let_def)

text \<open>
  On the page of the editable paragraph, the one key element and the one content
  element have the same locator.
\<close>

theorem key_content_share_locator:
  "map_sum id (map suggested_locator \<circ> key_elements) (analyzeBody editorPage ''http://example.test/'')
     = Inr [''page.locator('' @ [squote] @ ''#editor'' @ [squote] @ '')'']
   \<and> map_sum id (map suggested_locator \<circ> content_elements) (analyzeBody editorPage ''http://example.test/'')
     = Inr [''page.locator('' @ [squote] @ ''#editor'' @ [squote] @ '')'']"
proof -
  obtain ks where ks: "extractElements editorQuery = Inr ks"
    and lk: "map suggested_locator ks = [''page.locator('' @ [squote] @ ''#editor'' @ [squote] @ '')'']"
    using editor_key by (cases "extractElements editorQuery") auto
  obtain cs where cs: "extractContentElements editorQuery = Inr cs"
    and lc: "map suggested_locator cs = [''page.locator('' @ [squote] @ ''#editor'' @ [squote] @ '')'']"
    using editor_content by (cases "extractContentElements editorQuery") auto
  show ?thesis
    by (simp add: analyzeBody_def editorPage_def ks cs Let_def lk lc)
qed

theorem key_content_records_disjoint_witness:
  "\<exists>a. analyzeBody editorPage ''http://example.test/'' = Inr a
     \<and> set (key_elements a) \<inter> set (content_elements a) = {}
     \<and> length (key_elements a) = 1 \<and> length (content_elements a) = 1"
proof -
  obtain ks where ks: "extractElements editorQuery = Inr ks"
    and lk: "map suggested_locator ks = [''page.locator('' @ [squote] @ ''#editor'' @ [squote] @ '')'']"
    using editor_key by (cases "extractElements editorQuery") auto
  obtain cs where cs: "extractContentElements editorQuery = Inr cs"
    and lc: "map suggested_locator cs = [''page.locator('' @ [squote] @ ''#editor'' @ [squote] @ '')'']"
    using editor_content by (cases "extractContentElements editorQuery") auto
  obtain a where a: "analyzeBody editorPage ''http://example.test/'' = Inr a"
    by (simp add: analyzeBody_def editorPage_def ks cs Let_def)
  from analyzeBody_lists [OF a] ks cs have "key_elements a = ks" "content_elements a = cs"
    by (simp_all add: editorPage_def)
  with arg_cong [OF lk, of length] arg_cong [OF lc, of length]
  have "length (key_elements a) = 1" "length (content_elements a) = 1"
    by simp_all
  with key_content_records_disjoint [OF a] a show ?thesis by blast
qed

subsection \<open>The lists pass\<close>

lemma numberToString_3: "numberToString 3 = ''3''"
  by (simp add: numberToString.simps [of 3])

lemma numberToString_Suc3: "numberToString (Suc (Suc (Suc 0))) = ''3''"
  using numberToString_3 by (simp add: numeral_3_eq_3)

lemma listElement_empty:
  assumes "h_elTagName lst = Inr t" and "h_queryAll lst ''li'' = Inr []"
    and "h_getAttribute lst ''id'' = Inr ident" and "h_getAttribute lst ''class'' = Inr className"
  shows "listElement lst = Inr None"
  using assms by (simp add: listElement_def)

lemma listElement_items:
  assumes "h_elTagName lst = Inr t" and "h_queryAll lst ''li'' = Inr (item0 # rest)"
    and "h_getAttribute lst ''id'' = Inr ident" and "h_getAttribute lst ''class'' = Inr className"
    and "h_textContent item0 = Inr tc"
  shows "\<exists>el. listElement lst = Inr (Some el) \<and> role el = ''list''
    \<and> name_or_label el
        = (if toLowerCase t = ''ul'' then ''unordered'' else ''ordered'')
          @ '' list with '' @ numberToString (length (item0 # rest)) @ '' items''
    \<and> suggested_locator el
        = generateContentLocator ''list'' (orElse (map_option trim tc) []) (toLowerCase t) ident className"
  using assms by (simp add: listElement_def Let_def)

lemma generateContentLocator_list:
  assumes "\<not> truthy ident" and "\<not> truthy className"
  shows "generateContentLocator ''list'' txt tg ident className
    = (if txt \<noteq> [] \<and> length txt < 50
       then ''page.locator('' @ [squote] @ tg @ '':has-text('' @ [dquote]
              @ escapeChar dquote txt @ [dquote] @ '')'' @ [squote] @ '')''
       else ''page.locator('' @ [squote] @ tg @ [squote] @ '')'')"
  using assms by (simp add: generateContentLocator_def)

text \<open>
  Claim C9, as amended. For a \<open>ul\<close> or \<open>ol\<close> node whose calls succeed, the lists pass
  emits an element exactly when the node's \<open>li\<close> query returns at least one item. The
  name of the element is \<open>unordered list with N items\<close> for \<open>ul\<close> and
  \<open>ordered list with N items\<close> otherwise, \<open>N\<close> being the number of items, so
  \<open>unordered list with 3 items\<close> for a \<open>ul\<close> of three. Without id and class, the
  locator is the tag filtered by the first item's trimmed text, with double quotes
  escaped, when that text is not empty and shorter than 50 characters, and the bare
  tag locator otherwise.
\<close>

theorem list_summary:
  assumes "h_elTagName lst = Inr t" and "h_queryAll lst ''li'' = Inr items"
    and "h_getAttribute lst ''id'' = Inr ident" and "h_getAttribute lst ''class'' = Inr className"
    and "\<forall>item0 rest. items = item0 # rest \<longrightarrow> h_textContent item0 = Inr tc"
  shows "(items = [] \<longrightarrow> runPass listElement [lst] = [])
    \<and> (items \<noteq> [] \<longrightarrow>
         (\<exists>el. runPass listElement [lst] = [el] \<and> role el = ''list''
            \<and> name_or_label el
                = (if toLowerCase t = ''ul'' then ''unordered'' else ''ordered'')
                  @ '' list with '' @ numberToString (length items) @ '' items''
            \<and> (length items = 3 \<and> toLowerCase t = ''ul''
                  \<longrightarrow> name_or_label el = ''unordered list with 3 items'')
            \<and> (\<not> truthy ident \<and> \<not> truthy className \<longrightarrow>
                  suggested_locator el
                    = (if orElse (map_option trim tc) [] \<noteq> []
                          \<and> length (orElse (map_option trim tc) []) < 50
                       then ''page.locator('' @ [squote] @ toLowerCase t @ '':has-text('' @ [dquote]
                              @ escapeChar dquote (orElse (map_option trim tc) []) @ [dquote]
                              @ '')'' @ [squote] @ '')''
                       else ''page.locator('' @ [squote] @ toLowerCase t @ [squote] @ '')''))))"
proof (intro conjI impI)
  assume "items = []"
  with assms(2) have "h_queryAll lst ''li'' = Inr []" by simp
  from listElement_empty [OF assms(1) this assms(3,4)]
  show "runPass listElement [lst] = []" by simp
next
  assume "items \<noteq> []"
  then obtain item0 rest where it: "items = item0 # rest" by (cases items) auto
  with assms(5) have tc: "h_textContent item0 = Inr tc" by simp
  from assms(2) it have "h_queryAll lst ''li'' = Inr (item0 # rest)" by simp
  from listElement_items [OF assms(1) this assms(3,4) tc] obtain el where
    e: "listElement lst = Inr (Some el)" and r: "role el = ''list''"
    and n: "name_or_label el
        = (if toLowerCase t = ''ul'' then ''unordered'' else ''ordered'')
          @ '' list with '' @ numberToString (length items) @ '' items''"
    and l: "suggested_locator el
        = generateContentLocator ''list'' (orElse (map_option trim tc) []) (toLowerCase t) ident className"
    unfolding it by blast
  have p: "runPass listElement [lst] = [el]" using e by simp
  have n3: "length items = 3 \<and> toLowerCase t = ''ul''
      \<longrightarrow> name_or_label el = ''unordered list with 3 items''"
    using n by (simp add: numberToString_3)
  have l': "\<not> truthy ident \<and> \<not> truthy className \<longrightarrow>
      suggested_locator el
        = (if orElse (map_option trim tc) [] \<noteq> []
              \<and> length (orElse (map_option trim tc) []) < 50
           then ''page.locator('' @ [squote] @ toLowerCase t @ '':has-text('' @ [dquote]
                  @ escapeChar dquote (orElse (map_option trim tc) []) @ [dquote]
                  @ '')'' @ [squote] @ '')''
           else ''page.locator('' @ [squote] @ toLowerCase t @ [squote] @ '')'')"
    unfolding l using generateContentLocator_list [of ident className] by blast
  from p r n n3 l' show "\<exists>el. runPass listElement [lst] = [el] \<and> role el = ''list''
            \<and> name_or_label el
                = (if toLowerCase t = ''ul'' then ''unordered'' else ''ordered'')
                  @ '' list with '' @ numberToString (length items) @ '' items''
            \<and> (length items = 3 \<and> toLowerCase t = ''ul''
                  \<longrightarrow> name_or_label el = ''unordered list with 3 items'')
            \<and> (\<not> truthy ident \<and> \<not> truthy className \<longrightarrow>
                  suggested_locator el
                    = (if orElse (map_option trim tc) [] \<noteq> []
                          \<and> length (orElse (map_option trim tc) []) < 50
                       then ''page.locator('' @ [squote] @ toLowerCase t @ '':has-text('' @ [dquote]
                              @ escapeChar dquote (orElse (map_option trim tc) []) @ [dquote]
                              @ '')'' @ [squote] @ '')''
                       else ''page.locator('' @ [squote] @ toLowerCase t @ [squote] @ '')''))"
    by blast
qed

theorem list_summary_witness:
  "\<exists>el. runPass listElement [fruitList] = [el]
     \<and> name_or_label el = ''unordered list with 3 items''
     \<and> suggested_locator el
        = ''page.locator('' @ [squote] @ ''ul:has-text('' @ [dquote] @ ''Apples'' @ [dquote]
            @ '')'' @ [squote] @ '')''"
proof -
  have 1: "h_elTagName fruitList = Inr ''UL''"
    and 2: "h_queryAll fruitList ''li''
        = Inr [plainHandle ''LI'' [] '' Apples '', plainHandle ''LI'' [] ''Pears'',
               plainHandle ''LI'' [] ''Plums'']"
    and 3: "h_getAttribute fruitList ''id'' = Inr None"
    and 4: "h_getAttribute fruitList ''class'' = Inr None"
    by (simp_all add: fruitList_def listHandle_def)
  have 5: "\<forall>item0 rest.
      [plainHandle ''LI'' [] '' Apples '', plainHandle ''LI'' [] ''Pears'', plainHandle ''LI'' [] ''Plums'']
        = item0 # rest \<longrightarrow> h_textContent item0 = Inr (Some '' Apples '')"
    by (auto simp: plainHandle_def)
  have tr: "trim '' Apples '' = ''Apples''"
    by (simp add: trim_def isSpace_def)
  have lo: "toLowerCase ''UL'' = ''ul''"
    by (simp add: toLowerCase_def toLowerChar_def upperLetters_def lowerLetters_def)
  have es: "escapeChar dquote ''Apples'' = ''Apples''"
    by (simp add: escapeChar_def dquote_def)
  from list_summary [OF 1 2 3 4 5] show ?thesis
    by (auto simp: tr lo es)
qed

text \<open>
  An unordered list of three items, without id and class, whose first item has 57
  characters: the locator is the bare tag and owes nothing to the item's text.
\<close>

theorem list_locator_without_item_text:
  "map name_or_label (runPass listElement [termsList]) = [''unordered list with 3 items'']
   \<and> map suggested_locator (runPass listElement [termsList])
       = [''page.locator('' @ [squote] @ ''ul'' @ [squote] @ '')'']"
  by (simp add: termsList_def listHandle_def plainHandle_def listElement_def Let_def
      toLowerCase_def toLowerChar_def upperLetters_def lowerLetters_def trim_def isSpace_def numberToString_Suc3
      generateContentLocator_def)

subsection \<open>Escaping of embedded text\<close>

text \<open>The replacement used by the content rule set escapes every quote.\<close>

lemma escapeChar_escaped: "q \<noteq> backslash \<Longrightarrow> quotesEscaped q (escapeChar q s)"
proof (induction s)
  case Nil
  show ?case by (simp add: escapeChar_def)
next
  case (Cons c s)
  have e: "escapeChar q (c # s) = (if c = q then [backslash, q] else [c]) @ escapeChar q s"
    by (simp add: escapeChar_def)
  show ?case
  proof (cases "c = q")
    case True
    with Cons e show ?thesis by simp
  next
    case False
    show ?thesis
    proof (cases "escapeChar q s")
      case Nil
      with False e show ?thesis by simp
    next
      case (Cons d ds)
      have "\<not> (c = backslash \<and> d = q) \<or> quotesEscaped q ds"
      proof (cases s)
        case Nil
        with Cons show ?thesis by (simp add: escapeChar_def)
      next
        case (Cons c' s')
        with \<open>escapeChar q s = d # ds\<close> \<open>q \<noteq> backslash\<close> show ?thesis
          by (auto simp: escapeChar_def split: if_splits)
      qed
      with False e Cons Cons.IH [OF \<open>q \<noteq> backslash\<close>] show ?thesis by auto
    qed
  qed
qed

text \<open>
  Claim C1. The claim asks that text embedded in a locator has its matching quote
  escaped under both rule sets. The interactive rule set embeds the text as it is: for
  a button whose text is \<open>Don't save\<close> the locator holds the single quote unescaped
  inside a single-quoted string, whereas the content rule set, given the same text for
  a heading, escapes it.
\<close>

theorem interactive_locator_unescaped_quote:
  "map_option suggested_locator (extractElementInfo quoteButton)
     = Some (''page.getByRole('' @ [squote] @ ''button'' @ [squote] @ '', { name: '' @ [squote]
         @ ''Don't save'' @ [squote] @ '' })'')
   \<and> \<not> quotesEscaped squote ''Don't save''
   \<and> generateContentLocator ''heading'' ''Don't save'' ''h1'' None None
     = ''page.getByRole('' @ [squote] @ ''heading'' @ [squote] @ '', { name: '' @ [squote]
         @ ''Don'' @ [backslash, squote] @ ''t save'' @ [squote] @ '' })''
   \<and> quotesEscaped squote (''Don'' @ [backslash, squote] @ ''t save'')"
  by (simp add: quoteButton_def eval_simps generateContentLocator_def escapeChar_def
      squote_def backslash_def)

subsection \<open>Action inference on a page\<close>

lemma settings_key:
  "extractElements settingsQuery
     = Inr (firstWins [] (concat (map (candidatesOf settingsQuery) locators)))"
proof -
  have "\<forall>s \<in> set locators. \<exists>hs. settingsQuery s = Inr hs"
    by (simp add: settingsQuery_def)
  then show ?thesis by (rule extractElements_total)
qed

lemma settings_key_fields:
  "map role (firstWins [] (concat (map (candidatesOf settingsQuery) locators))) = [''checkbox'']"
  "map tag_name (firstWins [] (concat (map (candidatesOf settingsQuery) locators))) = [''div'']"
  "map name_or_label (firstWins [] (concat (map (candidatesOf settingsQuery) locators)))
     = [''Save settings'']"
  by (simp_all add: candidatesOf_def settingsQuery_def locators_def dquote_def
      List.map_filter_simps saveCheckbox_def eval_simps)

lemma settings_content:
  "map_sum id (map role) (extractContentElements settingsQuery) = Inr [''heading'', ''heading'']"
  by (simp add: extractContentElements_def settingsQuery_def dquote_def
      plainHandle_def headingElement_def trim_def isSpace_def Let_def)

text \<open>
  A page with no form field, no button and no link, two headings, and a checkbox that
  is a \<open>div\<close> labelled \<open>Save settings\<close>: the checkbox is an interactive element with
  a submit name, and the actions are \<open>submit form\<close> and \<open>verify page headings\<close>.
\<close>

theorem save_checkbox_triggers_submit:
  "map_sum id form_fields (analyzeBody settingsPage ''http://example.test/'') = Inr []
   \<and> map_sum id (map role \<circ> interactive_elements) (analyzeBody settingsPage ''http://example.test/'')
       = Inr [''checkbox'']
   \<and> map_sum id (map role \<circ> content_elements) (analyzeBody settingsPage ''http://example.test/'')
       = Inr [''heading'', ''heading'']
   \<and> map_sum id high_level_actions (analyzeBody settingsPage ''http://example.test/'')
       = Inr [''submit form'', ''verify page headings'']"
proof -
  obtain k where ks: "extractElements settingsQuery = Inr [k]"
    and k: "role k = ''checkbox''" "tag_name k = ''div''" "name_or_label k = ''Save settings''"
    using settings_key settings_key_fields
    by (cases "firstWins [] (concat (map (candidatesOf settingsQuery) locators))") auto
  obtain h1 h2 where cs: "extractContentElements settingsQuery = Inr [h1, h2]"
    and h: "role h1 = ''heading''" "role h2 = ''heading''"
    using settings_content by (cases "extractContentElements settingsQuery") auto
  have l: "toLowerCase ''div'' = ''div''"
    by (simp add: toLowerCase_def toLowerChar_def upperLetters_def lowerLetters_def)
  have s: "isSubmitButton k"
    by (simp add: isSubmitButton_def k toLowerCase_def toLowerChar_def upperLetters_def lowerLetters_def)
  have a: "inferActions [] [k] [h1, h2] = [''submit form'', ''verify page headings'']"
    by (simp add: inferActions_def Let_def s k h)
  show ?thesis
    by (simp add: analyzeBody_def settingsPage_def ks cs Let_def k h l a)
qed

subsection \<open>The page session\<close>

lemma analyzeBody_goto_fails: "p_goto pg u = Inl e \<Longrightarrow> analyzeBody pg u = Inl e"
  by (simp add: analyzeBody_def)

text \<open>The end of a call that has opened page session \<open>pid\<close> on page \<open>pg\<close>.\<close>

lemma closePage_ok:
  "p_close pg = Inr x \<Longrightarrow>
     closePage pg pid st
       = (Inr (), st\<lparr> open_pages := removeAll pid (open_pages st),
                       closed_pages := pid # closed_pages st \<rparr>)"
  by (simp add: closePage_def)

lemma closePage_rejects: "p_close pg = Inl e \<Longrightarrow> closePage pg pid st = (Inl e, st)"
  by (simp add: closePage_def)

lemma analyzePage_reuse:
  assumes "browser st = Some b"
  shows "analyzePage d u st =
     (case d_newPage d b of
        Inl e \<Rightarrow> (Inl e, st)
      | Inr (pid, pg) \<Rightarrow>
          (case closePage pg pid (st\<lparr> open_pages := pid # open_pages st \<rparr>) of
             (Inl e, st3) \<Rightarrow> (Inl e, st3)
           | (Inr _, st3) \<Rightarrow> (analyzeBody pg u, st3)))"
proof -
  from assms have i: "initialize d st = (Inr (), st)" by (simp add: initialize_def)
  show ?thesis
    unfolding analyzePage_def i using assms
    by (simp add: Let_def split: sum.splits prod.splits)
qed

lemma analyzePage_launch:
  assumes "browser st = None" and "d_launch d = Inr b"
  shows "analyzePage d u st =
     (case d_newPage d b of
        Inl e \<Rightarrow> (Inl e, st\<lparr> browser := Some b, running := b # running st \<rparr>)
      | Inr (pid, pg) \<Rightarrow>
          (case closePage pg pid (st\<lparr> browser := Some b, running := b # running st,
                                     open_pages := pid # open_pages st \<rparr>) of
             (Inl e, st3) \<Rightarrow> (Inl e, st3)
           | (Inr _, st3) \<Rightarrow> (analyzeBody pg u, st3)))"
proof -
  let ?st1 = "st\<lparr> browser := Some b, running := b # running st \<rparr>"
  from assms have i: "initialize d st = (Inr (), ?st1)" by (simp add: initialize_def)
  have b: "browser ?st1 = Some b" by simp
  from analyzePage_reuse [OF b, of d u] have
    "analyzePage d u ?st1 =
     (case d_newPage d b of
        Inl e \<Rightarrow> (Inl e, ?st1)
      | Inr (pid, pg) \<Rightarrow>
          (case closePage pg pid (?st1\<lparr> open_pages := pid # open_pages ?st1 \<rparr>) of
             (Inl e, st3) \<Rightarrow> (Inl e, st3)
           | (Inr _, st3) \<Rightarrow> (analyzeBody pg u, st3)))" .
  moreover have "analyzePage d u st = analyzePage d u ?st1"
    unfolding analyzePage_def i by (simp add: initialize_def)
  ultimately show ?thesis by (simp split: sum.splits prod.splits)
qed

lemma analyzePage_launch_fails:
  assumes "browser st = None" and "d_launch d = Inl e"
  shows "analyzePage d u st = (Inl e, st)"
  using assms by (simp add: analyzePage_def initialize_def)

text \<open>The state after a call that got as far as opening a page session.\<close>

lemma analyzePage_opened:
  assumes "analyzePage d u st = (r, st')" and "d_newPage d b = Inr (pid, pg)"
    and "browser st = Some b \<or> (browser st = None \<and> d_launch d = Inr b)"
  shows "browser st' = Some b"
    and "running st' = (if browser st = None then b # running st else running st)"
    and "p_close pg = Inr x \<Longrightarrow> r = analyzeBody pg u
          \<and> open_pages st' = removeAll pid (open_pages st)
          \<and> closed_pages st' = pid # closed_pages st"
    and "p_close pg = Inl e \<Longrightarrow> r = Inl e
          \<and> open_pages st' = pid # open_pages st \<and> closed_pages st' = closed_pages st"
proof -
  from assms(3) show "browser st' = Some b"
  proof
    assume s: "browser st = Some b"
    from assms(1) s show ?thesis
      unfolding analyzePage_reuse [OF s] assms(2)
      by (cases "p_close pg") (auto simp: closePage_def)
  next
    assume n: "browser st = None \<and> d_launch d = Inr b"
    from assms(1) show ?thesis
      unfolding analyzePage_launch [OF n [THEN conjunct1] n [THEN conjunct2]] assms(2)
      by (cases "p_close pg") (auto simp: closePage_def)
  qed
  from assms(3) show "running st' = (if browser st = None then b # running st else running st)"
  proof
    assume s: "browser st = Some b"
    from assms(1) s show ?thesis
      unfolding analyzePage_reuse [OF s] assms(2)
      by (cases "p_close pg") (auto simp: closePage_def)
  next
    assume n: "browser st = None \<and> d_launch d = Inr b"
    from assms(1) show ?thesis
      unfolding analyzePage_launch [OF n [THEN conjunct1] n [THEN conjunct2]] assms(2)
      by (cases "p_close pg") (auto simp: closePage_def n)
  qed
  {
    assume c: "p_close pg = Inr x"
    from assms(3) show "r = analyzeBody pg u
          \<and> open_pages st' = removeAll pid (open_pages st)
          \<and> closed_pages st' = pid # closed_pages st"
    proof
      assume s: "browser st = Some b"
      from assms(1) show ?thesis
        unfolding analyzePage_reuse [OF s] assms(2) by (auto simp: closePage_ok [OF c])
    next
      assume n: "browser st = None \<and> d_launch d = Inr b"
      from assms(1) show ?thesis
        unfolding analyzePage_launch [OF n [THEN conjunct1] n [THEN conjunct2]] assms(2)
        by (auto simp: closePage_ok [OF c])
    qed
  }
  {
    assume c: "p_close pg = Inl e"
    from assms(3) show "r = Inl e
          \<and> open_pages st' = pid # open_pages st \<and> closed_pages st' = closed_pages st"
    proof
      assume s: "browser st = Some b"
      from assms(1) show ?thesis
        unfolding analyzePage_reuse [OF s] assms(2) by (auto simp: closePage_rejects [OF c])
    next
      assume n: "browser st = None \<and> d_launch d = Inr b"
      from assms(1) show ?thesis
        unfolding analyzePage_launch [OF n [THEN conjunct1] n [THEN conjunct2]] assms(2)
        by (auto simp: closePage_rejects [OF c])
    qed
  }
qed

text \<open>The state after a call that could not open a page session.\<close>

lemma analyzePage_not_opened:
  assumes "analyzePage d u st = (r, st')" and "d_newPage d b = Inl e"
    and "browser st = Some b \<or> (browser st = None \<and> d_launch d = Inr b)"
  shows "r = Inl e" and "browser st' = Some b"
    and "running st' = (if browser st = None then b # running st else running st)"
    and "open_pages st' = open_pages st" and "closed_pages st' = closed_pages st"
proof -
  from assms(3) have "r = Inl e \<and> browser st' = Some b
    \<and> running st' = (if browser st = None then b # running st else running st)
    \<and> open_pages st' = open_pages st \<and> closed_pages st' = closed_pages st"
  proof
    assume s: "browser st = Some b"
    from assms(1) s show ?thesis
      unfolding analyzePage_reuse [OF s] assms(2) by auto
  next
    assume n: "browser st = None \<and> d_launch d = Inr b"
    from assms(1) show ?thesis
      unfolding analyzePage_launch [OF n [THEN conjunct1] n [THEN conjunct2]] assms(2)
      by (auto simp: n)
  qed
  then show "r = Inl e" and "browser st' = Some b"
    and "running st' = (if browser st = None then b # running st else running st)"
    and "open_pages st' = open_pages st" and "closed_pages st' = closed_pages st"
    by simp_all
qed

lemma analyzePage_browser:
  assumes "analyzePage d u st = (r, st')"
  shows "(\<exists>b. browser st' = Some b
            \<and> (browser st = Some b \<or> (browser st = None \<and> d_launch d = Inr b)))
         \<or> (browser st' = None \<and> st' = st \<and> (\<exists>e. r = Inl e))"
proof (cases "browser st")
  case (Some b)
  then have o: "browser st = Some b \<or> (browser st = None \<and> d_launch d = Inr b)" by simp
  show ?thesis
  proof (cases "d_newPage d b")
    case (Inl e)
    from analyzePage_not_opened(2) [OF assms Inl o] Some show ?thesis by simp
  next
    case (Inr p)
    then obtain pid pg where "d_newPage d b = Inr (pid, pg)" by (cases p) simp
    from analyzePage_opened(1) [OF assms this o] Some show ?thesis by simp
  qed
next
  case None
  show ?thesis
  proof (cases "d_launch d")
    case (Inl e)
    from assms show ?thesis
      unfolding analyzePage_launch_fails [OF None Inl] using None by auto
  next
    case launched: (Inr b)
    with None have o: "browser st = Some b \<or> (browser st = None \<and> d_launch d = Inr b)" by simp
    show ?thesis
    proof (cases "d_newPage d b")
      case (Inl e)
      from analyzePage_not_opened(2) [OF assms Inl o] None launched show ?thesis by simp
    next
      case (Inr p)
      then obtain pid pg where "d_newPage d b = Inr (pid, pg)" by (cases p) simp
      from analyzePage_opened(1) [OF assms this o] None launched show ?thesis by simp
    qed
  qed
qed

lemma close_browser:
  "browser st = Some b \<Longrightarrow> browser (close st) = None \<and> b \<notin> set (running (close st))"
  by (simp add: close_def)

text \<open>
  Claim C8, as amended. Take any call of \<open>analyzePage\<close> from a state whose browser
  handle, if set, is a running browser, and whatever the call's result, an analysis or
  a thrown error. No running browser is closed, and a handle that was set stays set. If
  the handle is set after the call, it is a running browser and the next \<open>initialize\<close>
  reuses it without launching. When the call opened a page session and \<open>page.close()\<close>
  does not reject, the session is closed and no longer open when the call ends, no
  session is open that was not open before, and the result is that of the body of the
  \<open>try\<close> block, which is the navigation error when navigation fails. When
  \<open>page.close()\<close> rejects, the call throws that rejection and the session is still
  open. When no page session could be opened, the call throws and the open sessions
  are as before; when the launch failed, the state is unchanged. A call that returns an
  analysis leaves the handle set. Closing the browser is left to \<open>close\<close>.
\<close>

theorem session_release:
  assumes "analyzePage d u st = (r, st')"
    and "\<forall>b. browser st = Some b \<longrightarrow> b \<in> set (running st)"
  shows "set (running st) \<subseteq> set (running st')
    \<and> (\<forall>b. browser st = Some b \<longrightarrow> browser st' = Some b)
    \<and> (\<forall>b. browser st' = Some b \<longrightarrow>
          b \<in> set (running st') \<and> initialize d' st' = (Inr (), st'))
    \<and> (\<forall>b pid pg. browser st' = Some b \<and> d_newPage d b = Inr (pid, pg) \<and> p_close pg = Inr () \<longrightarrow>
          r = analyzeBody pg u \<and> pid \<notin> set (open_pages st') \<and> pid \<in> set (closed_pages st')
          \<and> (\<forall>e. p_goto pg u = Inl e \<longrightarrow> r = Inl e)
          \<and> set (open_pages st') \<subseteq> set (open_pages st))
    \<and> (\<forall>b pid pg e. browser st' = Some b \<and> d_newPage d b = Inr (pid, pg) \<and> p_close pg = Inl e \<longrightarrow>
          r = Inl e \<and> pid \<in> set (open_pages st'))
    \<and> (\<forall>b e. browser st' = Some b \<and> d_newPage d b = Inl e \<longrightarrow>
          r = Inl e \<and> open_pages st' = open_pages st)
    \<and> (browser st' = None \<longrightarrow> st' = st \<and> (\<exists>e. r = Inl e))
    \<and> (\<forall>a. r = Inr a \<longrightarrow> (\<exists>b. browser st' = Some b))"
proof -
  from analyzePage_browser [OF assms(1)] consider
      (none) "browser st' = None" "st' = st" "\<exists>e. r = Inl e"
    | (some) b where "browser st' = Some b"
        "browser st = Some b \<or> (browser st = None \<and> d_launch d = Inr b)"
    by blast
  then show ?thesis
  proof cases
    case none
    then show ?thesis by auto
  next
    case (some b)
    note b = some(1) and o = some(2)
    have i: "initialize d' st' = (Inr (), st')" using b by (simp add: initialize_def)
    show ?thesis
    proof (cases "d_newPage d b")
      case (Inl e)
      note f = analyzePage_not_opened [OF assms(1) Inl o]
      from f(3) o assms(2) have run: "set (running st) \<subseteq> set (running st')" "b \<in> set (running st')"
        by auto
      from o b have keep: "\<forall>b'. browser st = Some b' \<longrightarrow> browser st' = Some b'" by auto
      from b run keep i Inl f(1,4) show ?thesis by simp
    next
      case (Inr p)
      then obtain pid pg where n: "d_newPage d b = Inr (pid, pg)" by (cases p) simp
      note f = analyzePage_opened [OF assms(1) n o]
      from f(2) o assms(2) have run: "set (running st) \<subseteq> set (running st')" "b \<in> set (running st')"
        by auto
      from o b have keep: "\<forall>b'. browser st = Some b' \<longrightarrow> browser st' = Some b'" by auto
      show ?thesis
      proof (cases "p_close pg")
        case c: (Inl e)
        from f(4) [OF c] have "r = Inl e" "pid \<in> set (open_pages st')" by simp_all
        with b run keep i n c show ?thesis by simp
      next
        case c: (Inr x)
        from f(3) [OF c] have r: "r = analyzeBody pg u"
          and op: "open_pages st' = removeAll pid (open_pages st)"
          and cl: "closed_pages st' = pid # closed_pages st"
          by simp_all
        have g: "\<forall>e. p_goto pg u = Inl e \<longrightarrow> r = Inl e"
          using r by (simp add: analyzeBody_goto_fails)
        have "pid \<notin> set (open_pages st')" "pid \<in> set (closed_pages st')"
          "set (open_pages st') \<subseteq> set (open_pages st)"
          using op cl by auto
        with b run keep i n c r g show ?thesis by simp
      qed
    qed
  qed
qed

theorem session_release_witness:
  "analyzePage (sampleDriver unreachablePage) ''http://nowhere.test/'' freshSession
     = (Inl (Thrown ''net::ERR_NAME_NOT_RESOLVED''),
        \<lparr> browser = Some 3, running = [3], open_pages = [], closed_pages = [7] \<rparr>)
   \<and> 7 \<notin> set (open_pages (snd (analyzePage (sampleDriver unreachablePage) ''http://nowhere.test/'' freshSession)))
   \<and> 3 \<in> set (running (snd (analyzePage (sampleDriver unreachablePage) ''http://nowhere.test/'' freshSession)))"
proof -
  let ?S = "\<lparr> browser = Some (3::nat), running = [3::nat], open_pages = [] :: nat list,
              closed_pages = [7::nat] \<rparr>"
  have g: "analyzeBody unreachablePage ''http://nowhere.test/'' = Inl (Thrown ''net::ERR_NAME_NOT_RESOLVED'')"
    by (rule analyzeBody_goto_fails) (simp add: unreachablePage_def)
  have n: "d_newPage (sampleDriver unreachablePage) 3 = Inr (7, unreachablePage)"
    by (simp add: sampleDriver_def)
  have c: "p_close unreachablePage = Inr ()"
    by (simp add: unreachablePage_def)
  have "analyzePage (sampleDriver unreachablePage) ''http://nowhere.test/'' freshSession
      = (case d_newPage (sampleDriver unreachablePage) 3 of
          Inl e \<Rightarrow> (Inl e, freshSession\<lparr> browser := Some 3, running := 3 # running freshSession \<rparr>)
        | Inr (pid, pg) \<Rightarrow>
          (case closePage pg pid (freshSession\<lparr> browser := Some 3, running := 3 # running freshSession,
                                     open_pages := pid # open_pages freshSession \<rparr>) of
             (Inl e, st3) \<Rightarrow> (Inl e, st3)
           | (Inr _, st3) \<Rightarrow> (analyzeBody pg ''http://nowhere.test/'', st3)))"
    by (rule analyzePage_launch) (simp_all add: freshSession_def sampleDriver_def)
  then have a: "analyzePage (sampleDriver unreachablePage) ''http://nowhere.test/'' freshSession
     = (Inl (Thrown ''net::ERR_NAME_NOT_RESOLVED''), ?S)"
    by (simp add: n g closePage_ok [OF c] freshSession_def)
  have w: "\<forall>b. browser freshSession = Some b \<longrightarrow> b \<in> set (running freshSession)"
    by (simp add: freshSession_def)
  note sr = session_release [OF a w]
  have b: "browser ?S = Some 3" by simp
  from sr [THEN conjunct2, THEN conjunct2, THEN conjunct1, rule_format, OF b]
  have 1: "3 \<in> set (running ?S)" by (rule conjunct1)
  from sr [THEN conjunct2, THEN conjunct2, THEN conjunct2, THEN conjunct1, rule_format, of 3 7 unreachablePage]
    b n c
  have 2: "7 \<notin> set (open_pages ?S)" by blast
  show ?thesis
    unfolding a snd_conv using 1 2 by blast
qed

text \<open>
  A page whose \<open>close\<close> rejects: the call throws the rejection, and page session 7,
  which the call opened, is still open when it ends.
\<close>

theorem session_kept_when_close_rejects:
  "analyzePage (sampleDriver stuckPage) ''http://example.test/'' freshSession
     = (Inl (Thrown ''Target closed''),
        \<lparr> browser = Some 3, running = [3], open_pages = [7], closed_pages = [] \<rparr>)"
proof -
  have n: "d_newPage (sampleDriver stuckPage) 3 = Inr (7, stuckPage)"
    by (simp add: sampleDriver_def)
  have c: "p_close stuckPage = Inl (Thrown ''Target closed'')"
    by (simp add: stuckPage_def)
  have "analyzePage (sampleDriver stuckPage) ''http://example.test/'' freshSession
      = (case d_newPage (sampleDriver stuckPage) 3 of
          Inl e \<Rightarrow> (Inl e, freshSession\<lparr> browser := Some 3, running := 3 # running freshSession \<rparr>)
        | Inr (pid, pg) \<Rightarrow>
          (case closePage pg pid (freshSession\<lparr> browser := Some 3, running := 3 # running freshSession,
                                     open_pages := pid # open_pages freshSession \<rparr>) of
             (Inl e, st3) \<Rightarrow> (Inl e, st3)
           | (Inr _, st3) \<Rightarrow> (analyzeBody pg ''http://example.test/'', st3)))"
    by (rule analyzePage_launch) (simp_all add: freshSession_def sampleDriver_def)
  then show ?thesis
    by (simp add: n closePage_rejects [OF c] freshSession_def)
qed

end
